theory Spec2Isabelle
  imports Main "HOL-Library.Sublist"
begin

section \<open>Strings\<close>

text \<open>
  A JavaScript string is a sequence of UTF-16 code units; \<open>length\<close>,
  \<open>substring\<close>, \<open>trim\<close> and the regular expressions of the source (none has
  the \<open>u\<close> flag) work on code units. The model writes a string as a \<^typ>\<open>string\<close>
  whose characters stand for the code units below 256. The chunker only asks of a
  code unit whether it is a sentence terminator and whether it is white space, so a
  code unit above 255 behaves like one of the characters modelled here.
\<close>

definition is_terminator :: "char \<Rightarrow> bool" where
  "is_terminator c \<longleftrightarrow> c = CHR ''.'' \<or> c = CHR ''!'' \<or> c = CHR ''?''"

text \<open>
  White space and line terminators of ECMAScript in the range below 256: TAB, LF, VT,
  FF, CR, SPACE and NO-BREAK SPACE. They are what \<open>String.prototype.trim\<close> removes
  and what \<open>\s\<close> matches.
\<close>

definition is_space :: "char \<Rightarrow> bool" where
  "is_space c \<longleftrightarrow> c \<in> set [CHR 0x09, CHR 0x0A, CHR 0x0B, CHR 0x0C, CHR 0x0D, CHR 0x20, CHR 0xA0]"

definition trim :: "string \<Rightarrow> string" where
  "trim s = rev (dropWhile is_space (rev (dropWhile is_space s)))"

text \<open>\<open>Array.prototype.join\<close> with a separator.\<close>

fun join :: "string \<Rightarrow> string list \<Rightarrow> string" where
  "join sep [] = []"
| "join sep [x] = x"
| "join sep (x # y # ys) = x @ sep @ join sep (y # ys)"

section \<open>The text chunker (src/lib/translation.ts, chunkText)\<close>

text \<open>
  \<open>match_at text\<close> is the match of \<open>/[^.!?]+[.!?]+/\<close> that starts at the first
  character of \<open>text\<close>, with the text behind it, when there is one. Both
  quantifiers are greedy: the first takes the longest run of non-terminators, the
  second the longest run of terminators. Giving back characters of the first run
  cannot help, since the character after a shorter run is not a terminator.
\<close>

definition match_at :: "string \<Rightarrow> (string \<times> string) option" where
  "match_at text =
     (let body = takeWhile (\<lambda>c. \<not> is_terminator c) text;
          after = dropWhile (\<lambda>c. \<not> is_terminator c) text;
          marks = takeWhile is_terminator after
      in if body = [] \<or> marks = [] then None
         else Some (body @ marks, dropWhile is_terminator after))"

text \<open>
  \<open>match_all text\<close> is \<open>text.match(/[^.!?]+[.!?]+/g)\<close> with \<open>[]\<close> for
  \<open>null\<close>: the matcher tries each start position from left to right, moves one
  character on where no match starts, and continues behind a match otherwise.
\<close>

function match_all :: "string \<Rightarrow> string list" where
  "match_all [] = []"
| "match_all (c # cs) =
     (case match_at (c # cs) of
        None \<Rightarrow> match_all cs
      | Some (m, rest) \<Rightarrow> m # match_all rest)"
  by pat_completeness auto
termination
proof (relation "measure length")
  fix c cs x2 m rest
  assume "match_at (c # cs) = Some x2" and "(m, rest) = x2"
  then have "rest = dropWhile is_terminator (dropWhile (\<lambda>c. \<not> is_terminator c) (c # cs))"
    and "takeWhile (\<lambda>c. \<not> is_terminator c) (c # cs) \<noteq> []"
    by (auto simp: match_at_def Let_def split: if_splits)
  then have "length rest \<le> length (dropWhile (\<lambda>c. \<not> is_terminator c) (c # cs))"
    and "\<not> is_terminator c"
    by (auto simp: length_dropWhile_le split: if_splits)
  moreover have "length (dropWhile (\<lambda>c. \<not> is_terminator c) cs) \<le> length cs"
    by (rule length_dropWhile_le)
  ultimately show "(rest, c # cs) \<in> measure length" by simp
qed simp_all

text \<open>\<open>text.match(...) || [text]\<close>: a \<open>null\<close> result is replaced by the whole text.\<close>

definition sentences :: "string \<Rightarrow> string list" where
  "sentences text = (case match_all text of [] \<Rightarrow> [text] | m # ms \<Rightarrow> m # ms)"

text \<open>
  The \<open>for\<close> loop of \<open>chunkText\<close>, over the sentences that are left, with the
  chunks pushed so far and the buffer \<open>current\<close>. \<open>substring(0, maxSize)\<close> is
  \<open>take\<close> and \<open>substring(maxSize)\<close> is \<open>drop\<close>; the empty string is the only
  falsy string.
\<close>

fun chunk_loop :: "nat \<Rightarrow> string list \<Rightarrow> string list \<Rightarrow> string \<Rightarrow> string list \<times> string" where
  "chunk_loop maxSize [] chunks current = (chunks, current)"
| "chunk_loop maxSize (sentence # rest) chunks current =
     (if length (current @ sentence) > maxSize then
        (if current \<noteq> [] then
           chunk_loop maxSize rest (chunks @ [trim current]) sentence
         else
           chunk_loop maxSize rest (chunks @ [take maxSize sentence]) (drop maxSize sentence))
      else chunk_loop maxSize rest chunks (current @ sentence))"

definition chunkText :: "string \<Rightarrow> nat \<Rightarrow> string list" where
  "chunkText text maxSize =
     (case chunk_loop maxSize (sentences text) [] [] of
        (chunks, current) \<Rightarrow> if trim current \<noteq> [] then chunks @ [trim current] else chunks)"

definition MAX_TRANSLATE_CHUNK :: nat where
  "MAX_TRANSLATE_CHUNK = 25000"

text \<open>
  The content of a text for comparison up to white space: \<open>trim\<close> and the
  single spaces of \<open>join(' ')\<close> only remove and add white space.
\<close>

definition remove_spaces :: "string \<Rightarrow> string" where
  "remove_spaces s = filter (\<lambda>c. \<not> is_space c) s"

section \<open>The language registry (src/lib/languages.ts)\<close>

text \<open>The emoji flags are kept as their UTF-16 code units; nothing modelled reads them.\<close>

record LanguageConfig =
  key :: string
  label :: string
  code :: string
  flag :: "nat list"

definition SUPPORTED_LANGUAGES :: "LanguageConfig list" where
  "SUPPORTED_LANGUAGES =
     [\<lparr>key = ''spanish'', label = ''Spanish'', code = ''es'', flag = [0xD83C, 0xDDEA, 0xD83C, 0xDDF8]\<rparr>,
      \<lparr>key = ''french'', label = ''French'', code = ''fr'', flag = [0xD83C, 0xDDEB, 0xD83C, 0xDDF7]\<rparr>,
      \<lparr>key = ''mandarin'', label = ''Mandarin'', code = ''zh-CN'', flag = [0xD83C, 0xDDE8, 0xD83C, 0xDDF3]\<rparr>]"

text \<open>
  \<open>String.prototype.toLowerCase\<close> on the code units below 256: the letters A to Z
  and the capital letters of Latin-1 (U+00C0 to U+00DE without the multiplication sign
  U+00D7) move up by 32, every other code unit stays.
\<close>

definition toLowerCase_unit :: "char \<Rightarrow> char" where
  "toLowerCase_unit c =
     (let n = (of_char c :: nat)
      in if (65 \<le> n \<and> n \<le> 90) \<or> (192 \<le> n \<and> n \<le> 222 \<and> n \<noteq> 215) then char_of (n + 32) else c)"

definition toLowerCase :: "string \<Rightarrow> string" where
  "toLowerCase s = map toLowerCase_unit s"

text \<open>\<open>SUPPORTED_LANGUAGES.find(l => l.key === key.toLowerCase())?.code\<close>\<close>

definition getLanguageCode :: "string \<Rightarrow> string option" where
  "getLanguageCode k = map_option code (find (\<lambda>l. key l = toLowerCase k) SUPPORTED_LANGUAGES)"

section \<open>Data of the pipeline (src/lib/translation.ts)\<close>

datatype priority = high | medium | low

record ActionItem =
  step :: string
  description :: string
  priority :: priority
  professionalType :: "string option"

text \<open>
  The two variants of \<open>ProcessingOutput\<close>. The field \<open>success\<close> of the source is
  the literal \<open>true\<close> in one variant and \<open>false\<close> in the other.
\<close>

datatype ProcessingOutput =
    ProcessingResult (translatedSummary: string) (actionPlan: "ActionItem list")
      (targetLanguage: string) (summaryLength: nat) (originalLength: nat) (timestamp: string)
  | ProcessingError (error: string) (timestamp: string)


section \<open>The collaborators\<close>

text \<open>
  What a \<open>throw\<close> throws and what a rejected promise carries is any value:
  \<open>null\<close>, \<open>undefined\<close>, or a value that has properties, of which the
  code reads \<open>message\<close> only. That property is a string, as for every
  \<open>Error\<close>, or some other value (a missing one is \<open>undefined\<close>); of a
  value that is not a string the model keeps whether it is truthy and how a template
  literal writes it. Reading \<open>error.message\<close> throws a \<open>TypeError\<close> for
  \<open>null\<close> and \<open>undefined\<close>.
\<close>

datatype message = StringMessage string | OtherMessage bool string

abbreviation NoMessage :: message where
  "NoMessage \<equiv> OtherMessage False ''undefined''"

datatype thrown = NullValue | UndefinedValue | Thrown message

abbreviation Error :: "string \<Rightarrow> thrown" where
  "Error m \<equiv> Thrown (StringMessage m)"

text \<open>
  The request of one call of the translation client: \<open>parent\<close> and
  \<open>mimeType\<close> are the same in every call and left out; \<open>contents\<close> is the
  one-element array of the source.
\<close>

record request =
  contents :: string
  sourceLanguageCode :: string
  targetLanguageCode :: string

text \<open>
  The calls that leave the program, in the order in which they are issued: reading and
  parsing the PDF at a path, the one request to the generative model for a document
  text, and a request to the translation service.
\<close>

datatype call = ExtractPdf string | GenerateContent string | TranslateRequest request

text \<open>
  The answer of the translation service: the call rejects, or it resolves with
  \<open>response.translations[0].translatedText\<close>, which may be missing. A response
  without \<open>translations[0]\<close> makes the property access throw and counts as a
  rejection with that \<open>TypeError\<close>.
\<close>

datatype translate_reply = Rejects thrown | Responds "string option"

text \<open>
  The world outside the program. \<open>pdf_text\<close> is \<open>readFileSync\<close> followed by
  \<open>pdf-parse\<close>: the field \<open>data.text\<close>, which may be missing, or the error
  thrown. \<open>gemini\<close> is \<open>generateContent\<close> on the prompt, a fixed text around
  the document text, followed by \<open>result.response.text()\<close>. \<open>json_parse\<close> is
  \<open>JSON.parse\<close> read through the cast to \<open>LLMOutput\<close>: the error thrown, or
  the field \<open>summary\<close> (\<open>None\<close> when it is missing) and the field
  \<open>actionPlan\<close> (\<open>None\<close> when it is not an array). As the cast says, a
  summary is a string and the entries of the array are action items. The answer of the
  translation service may depend on every call issued before the request. \<open>now\<close>
  is \<open>new Date().toISOString()\<close> when the result is built.
\<close>

record world =
  pdf_text :: "string \<Rightarrow> thrown + string option"
  gemini :: "string \<Rightarrow> thrown + string"
  json_parse :: "string \<Rightarrow> thrown + (string option \<times> ActionItem list option)"
  translation_service :: "call list \<Rightarrow> request \<Rightarrow> translate_reply"
  now :: string

section \<open>Promises\<close>

text \<open>
  An \<open>async\<close> function runs up to its first \<open>await\<close> when it is called, so
  \<open>xs.map(async ...)\<close> issues the calls of every element, in the order of the array,
  before any answer is looked at. \<open>map_async\<close> threads the list of issued calls
  through the elements and collects what each promise settles to.
\<close>

fun map_async :: "('a \<Rightarrow> call list \<Rightarrow> call list \<times> 'b) \<Rightarrow> 'a list \<Rightarrow> call list \<Rightarrow> call list \<times> 'b list" where
  "map_async f [] log = (log, [])"
| "map_async f (x # xs) log =
     (case f x log of (log1, r) \<Rightarrow>
        (case map_async f xs log1 of (log2, rs) \<Rightarrow> (log2, r # rs)))"

text \<open>
  \<open>Promise.all\<close> resolves with all values, in the order of the array, when every
  promise resolves, and rejects as soon as one rejects. Which rejection comes first in
  time is not decided by the program; the model reports the first in the order of the
  array.
\<close>

fun promise_all :: "('e + 'a) list \<Rightarrow> 'e + 'a list" where
  "promise_all [] = Inr []"
| "promise_all (Inl e # rs) = Inl e"
| "promise_all (Inr x # rs) = (case promise_all rs of Inl e \<Rightarrow> Inl e | Inr xs \<Rightarrow> Inr (x # xs))"

section \<open>The translation adapter (src/lib/translation.ts, translateText)\<close>

text \<open>
  The inner function \<open>translate\<close>: one request, and the check of its answer
  (\<open>!translatedText\<close> holds for a missing and for an empty text).
\<close>

definition check_reply :: "translate_reply \<Rightarrow> thrown + string" where
  "check_reply r =
     (case r of
        Rejects e \<Rightarrow> Inl e
      | Responds None \<Rightarrow> Inl (Error ''Translation API returned empty result'')
      | Responds (Some t) \<Rightarrow>
          if t = [] then Inl (Error ''Translation API returned empty result'') else Inr t)"

definition translate :: "world \<Rightarrow> string \<Rightarrow> string \<Rightarrow> string \<Rightarrow> call list \<Rightarrow> call list \<times> (thrown + string)" where
  "translate w sourceLangCode targetLangCode content log =
     (let req = \<lparr>contents = content, sourceLanguageCode = sourceLangCode,
                  targetLanguageCode = targetLangCode\<rparr>
      in (log @ [TranslateRequest req], check_reply (translation_service w log req)))"

definition translateText :: "world \<Rightarrow> string \<Rightarrow> string \<Rightarrow> string \<Rightarrow> call list \<Rightarrow> call list \<times> (thrown + string)" where
  "translateText w text targetLangCode sourceLangCode log =
     (if length text \<le> MAX_TRANSLATE_CHUNK then translate w sourceLangCode targetLangCode text log
      else
        (case map_async (translate w sourceLangCode targetLangCode)
                (chunkText text MAX_TRANSLATE_CHUNK) log of
           (log1, translated) \<Rightarrow>
             (log1, case promise_all translated of
                      Inl e \<Rightarrow> Inl e
                    | Inr ts \<Rightarrow> Inr (join '' '' ts))))"

section \<open>The stages of the pipeline (src/lib/translation.ts)\<close>

definition extractTextFromPDF :: "world \<Rightarrow> string \<Rightarrow> call list \<Rightarrow> call list \<times> (thrown + string)" where
  "extractTextFromPDF w pdfPath log =
     (log @ [ExtractPdf pdfPath],
      case pdf_text w pdfPath of
        Inl e \<Rightarrow> Inl e
      | Inr None \<Rightarrow> Inl (Error ''No text could be extracted from this PDF. It may be scanned image-only.'')
      | Inr (Some t) \<Rightarrow>
          if t = [] \<or> length (trim t) = 0
          then Inl (Error ''No text could be extracted from this PDF. It may be scanned image-only.'')
          else Inr t)"

text \<open>
  \<open>generateSummaryAndActions\<close>: one request, the check for an empty answer,
  \<open>JSON.parse\<close> and the check of the shape (\<open>!parsed.summary\<close> holds for a missing
  and for an empty summary).
\<close>

definition generateSummaryAndActions ::
  "world \<Rightarrow> string \<Rightarrow> call list \<Rightarrow> call list \<times> (thrown + string \<times> ActionItem list)" where
  "generateSummaryAndActions w fullText log =
     (log @ [GenerateContent fullText],
      case gemini w fullText of
        Inl e \<Rightarrow> Inl e
      | Inr raw \<Rightarrow>
          if raw = [] then Inl (Error ''Gemini returned an empty response'')
          else
            (case json_parse w raw of
               Inl e \<Rightarrow> Inl e
             | Inr (Some summary, Some plan) \<Rightarrow>
                 if summary = [] then Inl (Error ''Gemini returned an unexpected shape'')
                 else Inr (summary, plan)
             | Inr _ \<Rightarrow> Inl (Error ''Gemini returned an unexpected shape'')))"

text \<open>
  One element of \<open>translateActionPlan\<close>: both fields are sent for translation, and
  \<open>{ ...item, step: translatedStep, description: translatedDesc }\<close> keeps every other
  field of the item.
\<close>

definition translate_item :: "world \<Rightarrow> string \<Rightarrow> ActionItem \<Rightarrow> call list \<Rightarrow> call list \<times> (thrown + ActionItem)" where
  "translate_item w targetLangCode item log =
     (case translateText w (step item) targetLangCode ''en'' log of (log1, r1) \<Rightarrow>
        (case translateText w (description item) targetLangCode ''en'' log1 of (log2, r2) \<Rightarrow>
           (log2, case promise_all [r1, r2] of
                    Inl e \<Rightarrow> Inl e
                  | Inr ts \<Rightarrow> Inr (item\<lparr>step := ts ! 0, description := ts ! 1\<rparr>))))"

definition translateActionPlan ::
  "world \<Rightarrow> ActionItem list \<Rightarrow> string \<Rightarrow> call list \<Rightarrow> call list \<times> (thrown + ActionItem list)" where
  "translateActionPlan w plan targetLangCode log =
     (case map_async (translate_item w targetLangCode) plan log of
        (log1, rs) \<Rightarrow> (log1, promise_all rs))"

section \<open>The orchestrator (src/lib/translation.ts, processPDFDocument)\<close>

text \<open>
  The body of the \<open>try\<close> block, with the calls issued and either the error thrown or
  the result returned. \<open>!langCode\<close> holds for \<open>undefined\<close> and for the empty
  string.
\<close>

definition process_try :: "world \<Rightarrow> string \<Rightarrow> string \<Rightarrow> call list \<times> (thrown + ProcessingOutput)" where
  "process_try w pdfPath language =
     (case getLanguageCode language of
        None \<Rightarrow> ([], Inl (Error (''Unsupported language: '' @ language)))
      | Some langCode \<Rightarrow>
          if langCode = [] then ([], Inl (Error (''Unsupported language: '' @ language)))
          else
            (case extractTextFromPDF w pdfPath [] of
               (log1, Inl e) \<Rightarrow> (log1, Inl e)
             | (log1, Inr fullText) \<Rightarrow>
                 (case generateSummaryAndActions w fullText log1 of
                    (log2, Inl e) \<Rightarrow> (log2, Inl e)
                  | (log2, Inr (summary, plan)) \<Rightarrow>
                      (case translateText w summary langCode ''en'' log2 of (log3, r1) \<Rightarrow>
                         (case translateActionPlan w plan langCode log3 of (log4, r2) \<Rightarrow>
                            (log4,
                             case r1 of
                               Inl e \<Rightarrow> Inl e
                             | Inr summary' \<Rightarrow>
                                 (case r2 of
                                    Inl e \<Rightarrow> Inl e
                                  | Inr plan' \<Rightarrow>
                                      Inr (ProcessingResult summary' plan' language
                                             (length summary') (length fullText) (now w)))))))))"

text \<open>
  What a call of \<open>processPDFDocument\<close> comes to. Its promise resolves with one of
  the two variants; or it resolves with an object \<open>{success: false, error, timestamp}\<close>
  whose \<open>error\<close> is not a string (written as a template literal would, with the
  time stamp); or it rejects with the \<open>TypeError\<close> that is thrown inside the
  \<open>catch\<close> block.
\<close>

datatype outcome = Resolves ProcessingOutput | ResolvesUntyped string string | RejectsTypeError

text \<open>
  The \<open>catch\<close> block reads \<open>error.message\<close>. When the value caught is
  \<open>null\<close> or \<open>undefined\<close>, that throws inside the \<open>catch\<close> block, and
  the promise that \<open>processPDFDocument\<close> returned rejects. For every other value
  \<open>error.message || '...'\<close> is returned as \<open>error\<close>: the message when it
  is truthy, string or not, and the fixed text when it is missing, empty or falsy.
\<close>

definition processPDFDocument ::
  "world \<Rightarrow> string \<Rightarrow> string \<Rightarrow> call list \<times> outcome" where
  "processPDFDocument w pdfPath language =
     (case process_try w pdfPath language of
        (log, Inr result) \<Rightarrow> (log, Resolves result)
      | (log, Inl NullValue) \<Rightarrow> (log, RejectsTypeError)
      | (log, Inl UndefinedValue) \<Rightarrow> (log, RejectsTypeError)
      | (log, Inl (Thrown (StringMessage m))) \<Rightarrow>
          (log, Resolves (ProcessingError
                            (if m = [] then ''An unexpected error occurred during processing'' else m)
                            (now w)))
      | (log, Inl (Thrown (OtherMessage is_truthy written))) \<Rightarrow>
          (log, if is_truthy then ResolvesUntyped written (now w)
                else Resolves (ProcessingError ''An unexpected error occurred during processing'' (now w))))"

section \<open>The legacy pipeline (src/lib/translation.js)\<close>































section \<open>Notions used in the statements\<close>

text \<open>
  The requests that \<open>translateText\<close> issues for a text, that one action item
  needs, and that a whole action plan needs, in the order of issue.
\<close>

definition translate_request :: "string \<Rightarrow> string \<Rightarrow> string \<Rightarrow> call" where
  "translate_request sourceLangCode targetLangCode content =
     TranslateRequest \<lparr>contents = content, sourceLanguageCode = sourceLangCode,
                        targetLanguageCode = targetLangCode\<rparr>"

definition text_requests :: "string \<Rightarrow> string \<Rightarrow> string \<Rightarrow> call list" where
  "text_requests text targetLangCode sourceLangCode =
     (if length text \<le> MAX_TRANSLATE_CHUNK then [translate_request sourceLangCode targetLangCode text]
      else map (translate_request sourceLangCode targetLangCode) (chunkText text MAX_TRANSLATE_CHUNK))"

definition item_requests :: "string \<Rightarrow> ActionItem \<Rightarrow> call list" where
  "item_requests targetLangCode item =
     text_requests (step item) targetLangCode ''en'' @ text_requests (description item) targetLangCode ''en''"

definition plan_requests :: "string \<Rightarrow> ActionItem list \<Rightarrow> call list" where
  "plan_requests targetLangCode plan = concat (map (item_requests targetLangCode) plan)"

text \<open>
  A reply fails when the call rejects or the payload is missing or empty.
  \<open>all_answered w log new\<close>: every translation request among the calls \<open>new\<close>,
  issued after the calls \<open>log\<close>, gets a reply that does not fail.
\<close>

definition failed :: "translate_reply \<Rightarrow> bool" where
  "failed r \<longleftrightarrow> (case r of Rejects e \<Rightarrow> True | Responds None \<Rightarrow> True | Responds (Some t) \<Rightarrow> t = [])"

fun all_answered :: "world \<Rightarrow> call list \<Rightarrow> call list \<Rightarrow> bool" where
  "all_answered w log [] = True"
| "all_answered w log (c # cs) =
     ((case c of
         TranslateRequest req \<Rightarrow> \<not> failed (translation_service w log req)
       | _ \<Rightarrow> True)
      \<and> all_answered w (log @ [c]) cs)"

text \<open>
  The reply to the request for the chunk at position \<open>i\<close>, when the chunks are
  sent one after the other, starting after the calls \<open>log\<close>.
\<close>

definition chunk_reply :: "world \<Rightarrow> string \<Rightarrow> string \<Rightarrow> call list \<Rightarrow> string list \<Rightarrow> nat \<Rightarrow> translate_reply" where
  "chunk_reply w sourceLangCode targetLangCode log chunks i =
     translation_service w (log @ map (translate_request sourceLangCode targetLangCode) (take i chunks))
       \<lparr>contents = chunks ! i, sourceLanguageCode = sourceLangCode, targetLanguageCode = targetLangCode\<rparr>"

text \<open>
  The values of which the \<open>catch\<close> block of \<open>processPDFDocument\<close> makes an
  error variant: neither \<open>null\<close> nor \<open>undefined\<close>, with a message that is a
  string or falsy (a missing one is). Every \<open>Error\<close> is such a value. A world
  \<open>rejects_with_errors\<close> when its collaborators throw and reject with such values
  only.
\<close>

fun error_like :: "thrown \<Rightarrow> bool" where
  "error_like NullValue = False"
| "error_like UndefinedValue = False"
| "error_like (Thrown (StringMessage m)) = True"
| "error_like (Thrown (OtherMessage is_truthy written)) = (\<not> is_truthy)"



text \<open>The message of \<open>extractTextFromPDF\<close> for a PDF without text.\<close>

definition no_text_message :: string where
  "no_text_message = ''No text could be extracted from this PDF. It may be scanned image-only.''"

section \<open>Example inputs\<close>

text \<open>
  A document, an action plan and worlds for the concrete runs below: a translation
  service that answers with the target code in front of the text, one that answers
  \<open>uno\<close> to the first request and \<open>dos\<close> to every later one, and one that
  answers the first request and rejects every later one.
\<close>

definition example_text :: string where
  "example_text = ''Patient has an appointment on March 5th. Bring ID.''"

definition example_plan :: "ActionItem list" where
  "example_plan =
     [\<lparr>step = ''Go to the appointment'', description = ''The appointment is on March 5th.'',
       priority = high, professionalType = Some ''medical_interpreter''\<rparr>,
      \<lparr>step = ''Bring ID'', description = ''Take your ID with you.'',
       priority = low, professionalType = None\<rparr>]"

definition prefixing_service :: "call list \<Rightarrow> request \<Rightarrow> translate_reply" where
  "prefixing_service log req = Responds (Some (targetLanguageCode req @ '':'' @ contents req))"

definition numbering_service :: "call list \<Rightarrow> request \<Rightarrow> translate_reply" where
  "numbering_service log req = Responds (Some (if log = [] then ''uno'' else ''dos''))"

definition failing_second :: "call list \<Rightarrow> request \<Rightarrow> translate_reply" where
  "failing_second log req = (if log = [] then Responds (Some ''uno'') else Rejects (Error ''quota exceeded''))"

definition example_world :: "string option \<Rightarrow> (call list \<Rightarrow> request \<Rightarrow> translate_reply) \<Rightarrow> world" where
  "example_world extracted service =
     \<lparr>pdf_text = (\<lambda>p. Inr extracted),
      gemini = (\<lambda>t. Inr ''{...}''),
      json_parse = (\<lambda>r. Inr (Some ''You have an appointment.'', Some example_plan)),
      translation_service = service,
      now = ''2026-01-01T00:00:00.000Z''\<rparr>"

text \<open>A world in which reading the PDF rejects with a given value.\<close>

definition rejection_world :: "thrown \<Rightarrow> world" where
  "rejection_world e =
     \<lparr>pdf_text = (\<lambda>p. Inl e),
      gemini = (\<lambda>t. Inr ''{...}''),
      json_parse = (\<lambda>r. Inr (Some ''You have an appointment.'', Some example_plan)),
      translation_service = prefixing_service,
      now = ''2026-01-01T00:00:00.000Z''\<rparr>"



section \<open>Properties of the chunker\<close>

subsection \<open>Content up to white space\<close>

lemma remove_spaces_Nil [simp]: "remove_spaces [] = []"
  by (simp add: remove_spaces_def)

lemma remove_spaces_append: "remove_spaces (a @ b) = remove_spaces a @ remove_spaces b"
  by (simp add: remove_spaces_def)

lemma filter_dropWhile_same: "filter (\<lambda>c. \<not> P c) (dropWhile P s) = filter (\<lambda>c. \<not> P c) s"
  by (induction s) auto

lemma remove_spaces_trim: "remove_spaces (trim s) = remove_spaces s"
proof -
  have "filter (\<lambda>c. \<not> is_space c) (rev (dropWhile is_space (rev (dropWhile is_space s))))
        = rev (filter (\<lambda>c. \<not> is_space c) (dropWhile is_space (rev (dropWhile is_space s))))"
    by (simp add: rev_filter)
  also have "\<dots> = rev (filter (\<lambda>c. \<not> is_space c) (rev (dropWhile is_space s)))"
    by (simp only: filter_dropWhile_same)
  also have "\<dots> = filter (\<lambda>c. \<not> is_space c) (dropWhile is_space s)"
    by (simp add: rev_filter)
  also have "\<dots> = filter (\<lambda>c. \<not> is_space c) s"
    by (simp only: filter_dropWhile_same)
  finally show ?thesis by (simp add: remove_spaces_def trim_def)
qed

lemma remove_spaces_take_drop: "remove_spaces (take n s) @ remove_spaces (drop n s) = remove_spaces s"
  by (metis append_take_drop_id remove_spaces_append)

lemma remove_spaces_join: "remove_spaces (join '' '' xs) = remove_spaces (concat xs)"
  by (induction "'' ''" xs rule: join.induct) (simp_all add: remove_spaces_def is_space_def)

lemma chunk_loop_content:
  "chunk_loop m ss chunks cur = (chunks', cur') \<Longrightarrow>
   remove_spaces (concat chunks') @ remove_spaces cur'
     = remove_spaces (concat chunks) @ remove_spaces cur @ remove_spaces (concat ss)"
proof (induction ss arbitrary: chunks cur)
  case Nil
  then show ?case by (simp add: remove_spaces_def)
next
  case (Cons s ss)
  show ?case
  proof (cases "length (cur @ s) > m")
    case False
    with Cons.prems have "chunk_loop m ss chunks (cur @ s) = (chunks', cur')" by simp
    from Cons.IH[OF this] show ?thesis by (simp add: remove_spaces_append)
  next
    case long: True
    show ?thesis
    proof (cases "cur = []")
      case True
      with long Cons.prems
      have "chunk_loop m ss (chunks @ [take m s]) (drop m s) = (chunks', cur')" by simp
      from Cons.IH[OF this] True remove_spaces_take_drop[of m s] show ?thesis
        by (simp add: remove_spaces_append)
    next
      case False
      with long Cons.prems
      have "chunk_loop m ss (chunks @ [trim cur]) s = (chunks', cur')" by simp
      from Cons.IH[OF this] show ?thesis
        by (simp add: remove_spaces_append remove_spaces_trim)
    qed
  qed
qed

lemma chunkText_content:
  "remove_spaces (join '' '' (chunkText text m)) = remove_spaces (concat (sentences text))"
proof -
  obtain chunks cur where l: "chunk_loop m (sentences text) [] [] = (chunks, cur)"
    by (cases "chunk_loop m (sentences text) [] []")
  from chunk_loop_content[OF l]
  have c: "remove_spaces (concat chunks) @ remove_spaces cur = remove_spaces (concat (sentences text))"
    by (simp add: remove_spaces_def)
  show ?thesis
  proof (cases "trim cur = []")
    case True
    then have "remove_spaces cur = []" using remove_spaces_trim[of cur] by (simp add: remove_spaces_def)
    with c l True show ?thesis by (simp add: chunkText_def remove_spaces_join)
  next
    case False
    with c l show ?thesis
      by (simp add: chunkText_def remove_spaces_join remove_spaces_append remove_spaces_trim)
  qed
qed

lemma chunk_loop_fits:
  "length (cur @ concat ss) \<le> m \<Longrightarrow> chunk_loop m ss chunks cur = (chunks, cur @ concat ss)"
  by (induction ss arbitrary: cur) auto

lemma chunkText_short:
  "length (concat (sentences text)) \<le> m \<Longrightarrow>
   chunkText text m = (if trim (concat (sentences text)) = [] then [] else [trim (concat (sentences text))])"
  by (simp add: chunkText_def chunk_loop_fits)

subsection \<open>Sentences that fit stay whole\<close>

lemma dropWhile_middle:
  assumes "\<exists>x\<in>set s. \<not> P x"
  shows "\<exists>p'. dropWhile P (p @ s @ q) = p' @ dropWhile P s @ q"
proof (cases "\<forall>x\<in>set p. P x")
  case True
  then have "dropWhile P (p @ s @ q) = dropWhile P (s @ q)"
    by (simp add: dropWhile_append2)
  also from assms have "\<dots> = dropWhile P s @ q"
    by (auto simp: dropWhile_append1)
  finally have "dropWhile P (p @ s @ q) = [] @ dropWhile P s @ q" by simp
  then show ?thesis by blast
next
  case False
  then have "dropWhile P (p @ s @ q) = dropWhile P p @ s @ q"
    by (auto simp: dropWhile_append1)
  also have "\<dots> = (dropWhile P p @ takeWhile P s) @ dropWhile P s @ q"
    by simp
  finally show ?thesis by blast
qed

lemma trim_middle:
  assumes "\<exists>x\<in>set s. \<not> is_space x"
  shows "\<exists>p' q'. trim (p @ s @ q) = p' @ trim s @ q'"
proof -
  let ?d = "dropWhile is_space s"
  from dropWhile_middle[OF assms, of p q]
  obtain p' where p': "dropWhile is_space (p @ s @ q) = p' @ ?d @ q" by blast
  from assms have "?d \<noteq> []" by (simp add: dropWhile_eq_Nil_conv)
  then have "\<not> is_space (hd ?d)" by (rule hd_dropWhile)
  with \<open>?d \<noteq> []\<close> have "\<exists>x\<in>set (rev ?d). \<not> is_space x"
    by (metis hd_in_set set_rev)
  from dropWhile_middle[OF this, of "rev q" "rev p'"]
  obtain q' where "dropWhile is_space (rev q @ rev ?d @ rev p') = q' @ dropWhile is_space (rev ?d) @ rev p'"
    by blast
  with p' have "trim (p @ s @ q) = p' @ trim s @ rev q'"
    by (simp add: trim_def)
  then show ?thesis by blast
qed

lemma trim_Nil_iff: "trim s = [] \<longleftrightarrow> (\<forall>x\<in>set s. is_space x)"
proof -
  have "trim s = [] \<longleftrightarrow> (\<forall>x\<in>set (dropWhile is_space s). is_space x)"
    by (simp add: trim_def dropWhile_eq_Nil_conv)
  also have "\<dots> \<longleftrightarrow> dropWhile is_space s = []"
    by (metis hd_dropWhile hd_in_set empty_iff list.set(1))
  also have "\<dots> \<longleftrightarrow> (\<forall>x\<in>set s. is_space x)"
    by (simp add: dropWhile_eq_Nil_conv)
  finally show ?thesis .
qed

lemma sublist_trim:
  assumes "sublist s cur"
  shows "sublist (trim s) (trim cur)"
proof (cases "trim s = []")
  case True
  then show ?thesis by simp
next
  case False
  then have ex: "\<exists>x\<in>set s. \<not> is_space x" by (simp add: trim_Nil_iff)
  from assms obtain p q where "cur = p @ s @ q" by (auto simp: sublist_def)
  with trim_middle[OF ex, of p q] show ?thesis by (auto simp: sublist_def)
qed

lemma chunk_loop_holds:
  "chunk_loop m ss chunks cur = (chunks', cur') \<Longrightarrow>
   (\<exists>c\<in>set chunks. sublist (trim s) c) \<or> sublist s cur \<Longrightarrow>
   (\<exists>c\<in>set chunks'. sublist (trim s) c) \<or> sublist s cur'"
proof (induction ss arbitrary: chunks cur)
  case Nil
  then show ?case by simp
next
  case (Cons x ss)
  show ?case
  proof (cases "length (cur @ x) > m")
    case False
    with Cons.prems(1) have l: "chunk_loop m ss chunks (cur @ x) = (chunks', cur')" by simp
    from Cons.prems(2) have "(\<exists>c\<in>set chunks. sublist (trim s) c) \<or> sublist s (cur @ x)"
      by (auto intro: sublist_appendI dest: sublist_order.order.trans)
    from Cons.IH[OF l this] show ?thesis .
  next
    case long: True
    show ?thesis
    proof (cases "cur = []")
      case True
      with long Cons.prems(1)
      have l: "chunk_loop m ss (chunks @ [take m x]) (drop m x) = (chunks', cur')" by simp
      from Cons.prems(2) True have "(\<exists>c\<in>set chunks. sublist (trim s) c) \<or> trim s = []"
        by (auto simp: trim_def)
      then have "(\<exists>c\<in>set (chunks @ [take m x]). sublist (trim s) c) \<or> sublist s (drop m x)"
        by auto
      from Cons.IH[OF l this] show ?thesis .
    next
      case False
      with long Cons.prems(1)
      have l: "chunk_loop m ss (chunks @ [trim cur]) x = (chunks', cur')" by simp
      from Cons.prems(2) have "(\<exists>c\<in>set (chunks @ [trim cur]). sublist (trim s) c) \<or> sublist s x"
        by (auto dest: sublist_trim)
      from Cons.IH[OF l this] show ?thesis .
    qed
  qed
qed

lemma chunk_loop_whole:
  "chunk_loop m ss chunks cur = (chunks', cur') \<Longrightarrow> s \<in> set ss \<Longrightarrow> length s \<le> m \<Longrightarrow>
   (\<exists>c\<in>set chunks'. sublist (trim s) c) \<or> sublist s cur'"
proof (induction ss arbitrary: chunks cur)
  case Nil
  then show ?case by simp
next
  case (Cons x ss)
  show ?case
  proof (cases "s = x")
    case True
    show ?thesis
    proof (cases "length (cur @ x) > m")
      case False
      with Cons.prems(1) have l: "chunk_loop m ss chunks (cur @ x) = (chunks', cur')" by simp
      have "sublist s (cur @ x)" using True by (simp add: sublist_appendI)
      with chunk_loop_holds[OF l] show ?thesis by blast
    next
      case long: True
      with \<open>s = x\<close> Cons.prems(3) have "cur \<noteq> []" by auto
      with long Cons.prems(1)
      have l: "chunk_loop m ss (chunks @ [trim cur]) x = (chunks', cur')" by simp
      have "sublist s x" using \<open>s = x\<close> by simp
      with chunk_loop_holds[OF l] show ?thesis by blast
    qed
  next
    case False
    with Cons.prems(2) have mem: "s \<in> set ss" by simp
    from Cons.prems(1) Cons.IH[OF _ mem Cons.prems(3)] show ?thesis
      by (auto split: if_splits)
  qed
qed

lemma chunkText_whole_sentence:
  assumes "s \<in> set (sentences text)" and "length s \<le> m" and "trim s \<noteq> []"
  shows "\<exists>c\<in>set (chunkText text m). sublist (trim s) c"
proof -
  obtain chunks cur where l: "chunk_loop m (sentences text) [] [] = (chunks, cur)"
    by (cases "chunk_loop m (sentences text) [] []")
  from chunk_loop_whole[OF l assms(1,2)]
  consider "\<exists>c\<in>set chunks. sublist (trim s) c" | "sublist s cur" by blast
  then show ?thesis
  proof cases
    case 1
    with l show ?thesis by (auto simp: chunkText_def)
  next
    case 2
    then have sub: "sublist (trim s) (trim cur)" by (rule sublist_trim)
    with assms(3) have "trim cur \<noteq> []" by auto
    with l sub show ?thesis by (auto simp: chunkText_def)
  qed
qed

subsection \<open>Sentence tokens, empty chunks and the size bound\<close>

lemma match_at_no_terminator:
  "\<forall>c\<in>set t. \<not> is_terminator c \<Longrightarrow> match_at t = None"
proof -
  assume "\<forall>c\<in>set t. \<not> is_terminator c"
  then have d: "dropWhile (\<lambda>c. \<not> is_terminator c) t = []" by (simp add: dropWhile_eq_Nil_conv)
  show ?thesis unfolding match_at_def Let_def d by simp
qed

lemma match_all_no_terminator:
  "\<forall>c\<in>set t. \<not> is_terminator c \<Longrightarrow> match_all t = []"
proof (induction t)
  case Nil
  then show ?case by simp
next
  case (Cons c cs)
  then have "match_at (c # cs) = None" by (intro match_at_no_terminator)
  with Cons show ?case by simp
qed

lemma sentences_no_terminator:
  "\<forall>c\<in>set t. \<not> is_terminator c \<Longrightarrow> sentences t = [t]"
  by (simp add: sentences_def match_all_no_terminator)

lemma match_at_parts:
  assumes "match_at t = Some (m, rest)"
  shows "t = m @ rest" and "rest = [] \<or> \<not> is_terminator (hd rest)"
proof -
  let ?body = "takeWhile (\<lambda>c. \<not> is_terminator c) t"
  let ?after = "dropWhile (\<lambda>c. \<not> is_terminator c) t"
  from assms have m: "m = ?body @ takeWhile is_terminator ?after"
    and r: "rest = dropWhile is_terminator ?after"
    by (auto simp: match_at_def Let_def split: if_splits)
  have "t = ?body @ ?after" by simp
  also have "?after = takeWhile is_terminator ?after @ dropWhile is_terminator ?after" by simp
  finally show "t = m @ rest" using m r by simp
  show "rest = [] \<or> \<not> is_terminator (hd rest)"
    unfolding r by (metis hd_dropWhile)
qed

lemma match_at_terminated:
  assumes "t \<noteq> []" and "\<not> is_terminator (hd t)" and "is_terminator (last t)"
  shows "\<exists>m rest. match_at t = Some (m, rest)"
proof -
  let ?body = "takeWhile (\<lambda>c. \<not> is_terminator c) t"
  let ?after = "dropWhile (\<lambda>c. \<not> is_terminator c) t"
  from assms(1,2) have b: "?body \<noteq> []" by (cases t) auto
  from assms(1,3) have "\<exists>x\<in>set t. is_terminator x" using last_in_set by blast
  then have a: "?after \<noteq> []" by (simp add: dropWhile_eq_Nil_conv)
  then have "is_terminator (hd ?after)" using hd_dropWhile[of "\<lambda>c. \<not> is_terminator c" t] by simp
  with a have "takeWhile is_terminator ?after \<noteq> []" by (cases ?after) auto
  with b show ?thesis by (simp add: match_at_def Let_def)
qed

lemma length_concat_match_all: "length (concat (match_all t)) \<le> length t"
proof (induction t rule: match_all.induct)
  case 1
  then show ?case by simp
next
  case (2 c cs)
  show ?case
  proof (cases "match_at (c # cs)")
    case None
    with 2(1) show ?thesis by simp
  next
    case (Some mr)
    obtain m rest where mr: "mr = (m, rest)" by (cases mr)
    from Some mr have "c # cs = m @ rest" by (simp add: match_at_parts(1))
    then have "length (c # cs) = length m + length rest" by (simp only: length_append)
    moreover from 2(2)[OF Some mr[symmetric]] have "length (concat (match_all rest)) \<le> length rest" .
    moreover from Some mr have "match_all (c # cs) = m # match_all rest" by simp
    ultimately show ?thesis by simp
  qed
qed

lemma length_concat_sentences: "length (concat (sentences t)) \<le> length t"
  using length_concat_match_all[of t] by (auto simp: sentences_def split: list.splits)

lemma match_all_covers:
  "t \<noteq> [] \<Longrightarrow> \<not> is_terminator (hd t) \<Longrightarrow> is_terminator (last t) \<Longrightarrow>
   match_all t \<noteq> [] \<and> concat (match_all t) = t"
proof (induction t rule: match_all.induct)
  case 1
  then show ?case by simp
next
  case (2 c cs)
  from match_at_terminated[OF "2.prems"] obtain m rest where
    ma: "match_at (c # cs) = Some (m, rest)" by blast
  note parts = match_at_parts[OF ma]
  from ma have ms: "match_all (c # cs) = m # match_all rest" by simp
  have "concat (match_all rest) = rest"
  proof (cases "rest = []")
    case True
    then show ?thesis by simp
  next
    case False
    with parts(2) have h: "\<not> is_terminator (hd rest)" by simp
    from parts(1) False "2.prems"(3) have l: "is_terminator (last rest)" by simp
    from "2.IH"(2)[OF ma refl False h l] show ?thesis by simp
  qed
  then have "concat (match_all (c # cs)) = m @ rest" unfolding ms by simp
  with parts(1) ms show ?case by simp
qed

lemma sentences_cover_terminated:
  "t \<noteq> [] \<Longrightarrow> \<not> is_terminator (hd t) \<Longrightarrow> is_terminator (last t) \<Longrightarrow> concat (sentences t) = t"
  using match_all_covers[of t] by (cases "match_all t") (simp_all add: sentences_def)

lemma length_trim_le: "length (trim s) \<le> length s"
proof -
  have "length (trim s) \<le> length (dropWhile is_space s)"
    unfolding trim_def by (metis length_dropWhile_le length_rev)
  also have "\<dots> \<le> length s" by (rule length_dropWhile_le)
  finally show ?thesis .
qed

lemma trim_no_space: "\<forall>c\<in>set s. \<not> is_space c \<Longrightarrow> trim s = s"
proof -
  assume a: "\<forall>c\<in>set s. \<not> is_space c"
  then have "dropWhile is_space s = s" by (cases s) auto
  moreover from a have "dropWhile is_space (rev s) = rev s" by (cases "rev s") auto
  ultimately show ?thesis by (simp add: trim_def)
qed

lemma match_at_ends:
  assumes "match_at t = Some (m, rest)"
  shows "m \<noteq> [] \<and> is_terminator (last m)"
proof -
  let ?after = "dropWhile (\<lambda>c. \<not> is_terminator c) t"
  let ?marks = "takeWhile is_terminator ?after"
  from assms have m: "m = takeWhile (\<lambda>c. \<not> is_terminator c) t @ ?marks" and ne: "?marks \<noteq> []"
    by (auto simp: match_at_def Let_def split: if_splits)
  from ne have "last ?marks \<in> set ?marks" by simp
  then have "is_terminator (last ?marks)" by (rule set_takeWhileD[THEN conjunct2])
  with m ne show ?thesis by simp
qed

lemma match_all_ends: "s \<in> set (match_all t) \<Longrightarrow> s \<noteq> [] \<and> is_terminator (last s)"
proof (induction t rule: match_all.induct)
  case 1
  then show ?case by simp
next
  case (2 c cs)
  show ?case
  proof (cases "match_at (c # cs)")
    case None
    with 2 show ?thesis by simp
  next
    case (Some a)
    obtain m rest where a: "a = (m, rest)" by (cases a)
    with Some 2 match_at_ends[of "c # cs" m rest] show ?thesis by auto
  qed
qed

lemma terminator_not_space: "is_terminator c \<Longrightarrow> \<not> is_space c"
  by (auto simp: is_terminator_def is_space_def)

lemma trim_ends_terminator: "s \<noteq> [] \<Longrightarrow> is_terminator (last s) \<Longrightarrow> trim s \<noteq> []"
  by (metis last_in_set terminator_not_space trim_Nil_iff)

lemma chunk_loop_nonempty:
  "chunk_loop m ss chunks cur = (chunks', cur') \<Longrightarrow> 1 \<le> m \<Longrightarrow>
   \<forall>s\<in>set ss. s \<noteq> [] \<and> is_terminator (last s) \<Longrightarrow>
   cur = [] \<or> is_terminator (last cur) \<Longrightarrow> [] \<notin> set chunks \<Longrightarrow>
   [] \<notin> set chunks' \<and> (cur' = [] \<or> is_terminator (last cur'))"
proof (induction ss arbitrary: chunks cur)
  case Nil
  then show ?case by simp
next
  case (Cons s ss)
  from Cons.prems(3) have s: "s \<noteq> []" "is_terminator (last s)" and ss: "\<forall>s\<in>set ss. s \<noteq> [] \<and> is_terminator (last s)"
    by simp_all
  show ?case
  proof (cases "length (cur @ s) > m")
    case False
    with Cons.prems(1) have l: "chunk_loop m ss chunks (cur @ s) = (chunks', cur')" by simp
    from s have "cur @ s = [] \<or> is_terminator (last (cur @ s))" by simp
    from Cons.IH[OF l Cons.prems(2) ss this Cons.prems(5)] show ?thesis .
  next
    case long: True
    show ?thesis
    proof (cases "cur = []")
      case True
      with long Cons.prems(1)
      have l: "chunk_loop m ss (chunks @ [take m s]) (drop m s) = (chunks', cur')" by simp
      from s Cons.prems(2) have "take m s \<noteq> []" by (cases m) auto
      with Cons.prems(5) have c: "[] \<notin> set (chunks @ [take m s])" by auto
      from s have "drop m s = [] \<or> is_terminator (last (drop m s))"
        by (cases "m < length s") (simp_all add: last_drop)
      from Cons.IH[OF l Cons.prems(2) ss this c] show ?thesis .
    next
      case False
      with long Cons.prems(1)
      have l: "chunk_loop m ss (chunks @ [trim cur]) s = (chunks', cur')" by simp
      from False Cons.prems(4) have "trim cur \<noteq> []" using trim_ends_terminator[of cur] by blast
      with Cons.prems(5) have c: "[] \<notin> set (chunks @ [trim cur])" by auto
      from s have "s = [] \<or> is_terminator (last s)" by simp
      from Cons.IH[OF l Cons.prems(2) ss this c] show ?thesis .
    qed
  qed
qed

lemma chunkText_chunks_nonempty:
  assumes "1 \<le> m"
  shows "[] \<notin> set (chunkText text m)"
proof -
  obtain chunks cur where l: "chunk_loop m (sentences text) [] [] = (chunks, cur)"
    by (cases "chunk_loop m (sentences text) [] []")
  have "[] \<notin> set chunks"
  proof (cases "match_all text")
    case Nil
    then have "sentences text = [text]" by (simp add: sentences_def)
    with l assms show ?thesis by (cases m) (auto split: if_splits)
  next
    case (Cons a as)
    then have "sentences text = match_all text" by (simp add: sentences_def)
    with match_all_ends have "\<forall>s\<in>set (sentences text). s \<noteq> [] \<and> is_terminator (last s)" by simp
    from chunk_loop_nonempty[OF l assms this] show ?thesis by simp
  qed
  with l show ?thesis by (auto simp: chunkText_def)
qed

lemma chunk_loop_bounded:
  "chunk_loop m ss chunks cur = (chunks', cur') \<Longrightarrow>
   \<forall>s\<in>set ss. length s \<le> m \<Longrightarrow> length cur \<le> m \<Longrightarrow> \<forall>c\<in>set chunks. length c \<le> m \<Longrightarrow>
   (\<forall>c\<in>set chunks'. length c \<le> m) \<and> length cur' \<le> m"
proof (induction ss arbitrary: chunks cur)
  case Nil
  then show ?case by simp
next
  case (Cons s ss)
  from Cons.prems(2) have s: "length s \<le> m" and ss: "\<forall>s\<in>set ss. length s \<le> m" by simp_all
  show ?case
  proof (cases "length (cur @ s) > m")
    case False
    with Cons.prems(1) have l: "chunk_loop m ss chunks (cur @ s) = (chunks', cur')" by simp
    from False have "length (cur @ s) \<le> m" by simp
    from Cons.IH[OF l ss this Cons.prems(4)] show ?thesis .
  next
    case long: True
    with s have "cur \<noteq> []" by auto
    with long Cons.prems(1)
    have l: "chunk_loop m ss (chunks @ [trim cur]) s = (chunks', cur')" by simp
    from Cons.prems(3) have "length (trim cur) \<le> m" using length_trim_le[of cur] by simp
    with Cons.prems(4) have "\<forall>c\<in>set (chunks @ [trim cur]). length c \<le> m" by auto
    from Cons.IH[OF l ss s this] show ?thesis .
  qed
qed

lemma chunkText_bounded_when_sentences_fit:
  assumes "\<forall>s\<in>set (sentences text). length s \<le> m"
  shows "\<forall>c\<in>set (chunkText text m). length c \<le> m"
proof -
  obtain chunks cur where l: "chunk_loop m (sentences text) [] [] = (chunks, cur)"
    by (cases "chunk_loop m (sentences text) [] []")
  from chunk_loop_bounded[OF l assms] have "(\<forall>c\<in>set chunks. length c \<le> m) \<and> length cur \<le> m"
    by simp
  with l length_trim_le[of cur] show ?thesis by (auto simp: chunkText_def)
qed


section \<open>Properties of the translation adapter\<close>

lemma promise_all_map_Inr: "promise_all (map Inr xs) = Inr xs"
  by (induction xs) simp_all

lemma promise_all_Inr_iff: "promise_all rs = Inr xs \<longleftrightarrow> rs = map Inr xs"
proof
  show "promise_all rs = Inr xs \<Longrightarrow> rs = map Inr xs"
  proof (induction rs arbitrary: xs)
    case Nil
    then show ?case by simp
  next
    case (Cons r rs)
    then show ?case by (cases r) (auto split: sum.splits)
  qed
qed (simp add: promise_all_map_Inr)

lemma promise_all_isl: "isl (promise_all rs) \<longleftrightarrow> (\<exists>r\<in>set rs. isl r)"
  by (induction rs rule: promise_all.induct) (auto split: sum.splits)

lemma isl_check_reply: "isl (check_reply r) \<longleftrightarrow> failed r"
  by (auto simp: check_reply_def failed_def split: translate_reply.splits option.splits)

lemma check_reply_Inr_iff: "check_reply r = Inr t \<longleftrightarrow> t \<noteq> [] \<and> r = Responds (Some t)"
  by (auto simp: check_reply_def split: translate_reply.splits option.splits)

lemma all_answered_append:
  "all_answered w log (a @ b) \<longleftrightarrow> all_answered w log a \<and> all_answered w (log @ a) b"
  by (induction a arbitrary: log) auto

lemma fst_translate:
  "fst (translate w src tgt c log) = log @ [translate_request src tgt c]"
  by (simp add: translate_def translate_request_def Let_def)

lemma translate_answered:
  "\<not> isl (snd (translate w src tgt c log)) \<longleftrightarrow> all_answered w log [translate_request src tgt c]"
  by (simp add: translate_def translate_request_def Let_def isl_check_reply)

lemma map_async_translate:
  "map_async (translate w src tgt) cs log =
     (log @ map (translate_request src tgt) cs,
      map (\<lambda>i. check_reply (chunk_reply w src tgt log cs i)) [0..<length cs])"
proof (induction cs arbitrary: log)
  case Nil
  then show ?case by simp
next
  case (Cons c cs)
  have head: "translate w src tgt c log
      = (log @ [translate_request src tgt c], check_reply (chunk_reply w src tgt log (c # cs) 0))"
    by (simp add: translate_def translate_request_def chunk_reply_def Let_def)
  have shift: "\<And>i. chunk_reply w src tgt (log @ [translate_request src tgt c]) cs i
      = chunk_reply w src tgt log (c # cs) (Suc i)"
    by (simp add: chunk_reply_def)
  have "map (\<lambda>i. check_reply (chunk_reply w src tgt log (c # cs) i)) [0..<length (c # cs)]
      = check_reply (chunk_reply w src tgt log (c # cs) 0)
        # map (\<lambda>i. check_reply (chunk_reply w src tgt log (c # cs) (Suc i))) [0..<length cs]"
    by (simp add: upt_rec[of 0] map_Suc_upt[symmetric] del: upt_Suc)
  with head Cons.IH[of "log @ [translate_request src tgt c]"] shift show ?case
    by simp
qed

lemma map_async_translate_answered:
  "(\<forall>r\<in>set (snd (map_async (translate w src tgt) cs log)). \<not> isl r)
     \<longleftrightarrow> all_answered w log (map (translate_request src tgt) cs)"
proof (induction cs arbitrary: log)
  case Nil
  then show ?case by simp
next
  case (Cons c cs)
  obtain l1 r where t: "translate w src tgt c log = (l1, r)" by (cases "translate w src tgt c log")
  obtain l2 rs where m: "map_async (translate w src tgt) cs l1 = (l2, rs)"
    by (cases "map_async (translate w src tgt) cs l1")
  from t have l1: "l1 = log @ [translate_request src tgt c]"
    using fst_translate[of w src tgt c log] by simp
  from t have r: "\<not> isl r \<longleftrightarrow> all_answered w log [translate_request src tgt c]"
    using translate_answered[of w src tgt c log] by simp
  from Cons.IH[of l1] m have "(\<forall>r\<in>set rs. \<not> isl r) \<longleftrightarrow> all_answered w l1 (map (translate_request src tgt) cs)"
    by simp
  with t m l1 r show ?case
    using all_answered_append[of w log "[translate_request src tgt c]" "map (translate_request src tgt) cs"]
    by simp
qed

lemma fst_translateText:
  "fst (translateText w text tgt src log) = log @ text_requests text tgt src"
  by (simp add: translateText_def text_requests_def fst_translate map_async_translate)

lemma translateText_answered:
  "\<not> isl (snd (translateText w text tgt src log)) \<longleftrightarrow> all_answered w log (text_requests text tgt src)"
proof (cases "length text \<le> MAX_TRANSLATE_CHUNK")
  case True
  then show ?thesis
    using translate_answered[of w src tgt "text" log]
    by (simp add: translateText_def text_requests_def)
next
  case False
  obtain l rs where m: "map_async (translate w src tgt) (chunkText text MAX_TRANSLATE_CHUNK) log = (l, rs)"
    by (cases "map_async (translate w src tgt) (chunkText text MAX_TRANSLATE_CHUNK) log")
  from False m have s: "snd (translateText w text tgt src log)
      = (case promise_all rs of Inl e \<Rightarrow> Inl e | Inr ts \<Rightarrow> Inr (join '' '' ts))"
    by (simp add: translateText_def)
  have "\<not> isl (snd (translateText w text tgt src log)) \<longleftrightarrow> \<not> isl (promise_all rs)"
    unfolding s by (cases "promise_all rs") simp_all
  also have "\<dots> \<longleftrightarrow> (\<forall>r\<in>set rs. \<not> isl r)"
    by (simp add: promise_all_isl)
  also have "\<dots> \<longleftrightarrow> all_answered w log (map (translate_request src tgt) (chunkText text MAX_TRANSLATE_CHUNK))"
    using map_async_translate_answered[of w src tgt "chunkText text MAX_TRANSLATE_CHUNK" log] m by simp
  finally show ?thesis using False by (simp add: text_requests_def)
qed

lemma snd_translateText_long:
  assumes "MAX_TRANSLATE_CHUNK < length text"
  shows "snd (translateText w text tgt src log) = Inr out \<longleftrightarrow>
     (\<exists>ts. length ts = length (chunkText text MAX_TRANSLATE_CHUNK) \<and> out = join '' '' ts \<and>
        (\<forall>i<length ts. ts ! i \<noteq> [] \<and>
           chunk_reply w src tgt log (chunkText text MAX_TRANSLATE_CHUNK) i = Responds (Some (ts ! i))))"
proof -
  let ?cs = "chunkText text MAX_TRANSLATE_CHUNK"
  let ?rs = "map (\<lambda>i. check_reply (chunk_reply w src tgt log ?cs i)) [0..<length ?cs]"
  from assms have s: "snd (translateText w text tgt src log)
      = (case promise_all ?rs of Inl e \<Rightarrow> Inl e | Inr ts \<Rightarrow> Inr (join '' '' ts))"
    by (simp add: translateText_def map_async_translate)
  have rs: "?rs = map Inr ts \<longleftrightarrow> length ts = length ?cs \<and>
      (\<forall>i<length ts. ts ! i \<noteq> [] \<and> chunk_reply w src tgt log ?cs i = Responds (Some (ts ! i)))" for ts
  proof (cases "length ts = length ?cs")
    case True
    then have "?rs = map Inr ts \<longleftrightarrow> (\<forall>i<length ts. ?rs ! i = map Inr ts ! i)"
      by (subst list_eq_iff_nth_eq) simp
    also have "\<dots> \<longleftrightarrow> (\<forall>i<length ts. check_reply (chunk_reply w src tgt log ?cs i) = Inr (ts ! i))"
      using True by simp
    finally show ?thesis using True by (simp add: check_reply_Inr_iff)
  next
    case False
    then have "length ?rs \<noteq> length (map Inr ts :: (thrown + string) list)" by simp
    then have "?rs \<noteq> map Inr ts" by metis
    with False show ?thesis by simp
  qed
  show ?thesis
  proof
    assume "snd (translateText w text tgt src log) = Inr out"
    with s obtain ts where "promise_all ?rs = Inr ts" and "out = join '' '' ts"
      by (auto split: sum.splits)
    then show "\<exists>ts. length ts = length ?cs \<and> out = join '' '' ts \<and>
        (\<forall>i<length ts. ts ! i \<noteq> [] \<and> chunk_reply w src tgt log ?cs i = Responds (Some (ts ! i)))"
      using rs[of ts] by (auto simp: promise_all_Inr_iff)
  next
    assume "\<exists>ts. length ts = length ?cs \<and> out = join '' '' ts \<and>
        (\<forall>i<length ts. ts ! i \<noteq> [] \<and> chunk_reply w src tgt log ?cs i = Responds (Some (ts ! i)))"
    then obtain ts where "?rs = map Inr ts" and "out = join '' '' ts"
      using rs by blast
    then have "promise_all ?rs = Inr ts" by (simp add: promise_all_Inr_iff)
    with s \<open>out = join '' '' ts\<close> show "snd (translateText w text tgt src log) = Inr out"
      by simp
  qed
qed

lemma chunkText_unbroken:
  assumes "\<forall>c\<in>set t. \<not> is_terminator c \<and> \<not> is_space c" and "m < length t"
  shows "chunkText t m = (if drop m t = [] then [take m t] else [take m t, drop m t])"
proof -
  from assms(1) have s: "sentences t = [t]" by (intro sentences_no_terminator) simp
  have "\<forall>c\<in>set (drop m t). \<not> is_space c" using assms(1) by (auto dest: in_set_dropD)
  then have tr: "trim (drop m t) = drop m t" by (rule trim_no_space)
  from assms(2) show ?thesis by (simp add: chunkText_def s tr)
qed

section \<open>Properties of the pipeline\<close>

lemma map_async_issues:
  assumes "\<And>x log. fst (f x log) = log @ g x"
  shows "map_async f xs log =
     (log @ concat (map g xs),
      map (\<lambda>i. snd (f (xs ! i) (log @ concat (map g (take i xs))))) [0..<length xs])"
proof (induction xs arbitrary: log)
  case Nil
  then show ?case by simp
next
  case (Cons x xs)
  obtain r where head: "f x log = (log @ g x, r)"
    using assms[of x log] by (cases "f x log") simp
  have "map (\<lambda>i. snd (f ((x # xs) ! i) (log @ concat (map g (take i (x # xs)))))) [0..<length (x # xs)]
      = snd (f x log)
        # map (\<lambda>i. snd (f (xs ! i) ((log @ g x) @ concat (map g (take i xs))))) [0..<length xs]"
    by (simp add: upt_rec[of 0] map_Suc_upt[symmetric] del: upt_Suc)
  also have "snd (f x log) = r" using head by simp
  finally show ?case using head Cons.IH[of "log @ g x"] by simp
qed

lemma fst_translate_item:
  "fst (translate_item w tgt item log) = log @ item_requests tgt item"
proof -
  obtain l1 r1 where a: "translateText w (step item) tgt ''en'' log = (l1, r1)"
    by (cases "translateText w (step item) tgt ''en'' log")
  obtain l2 r2 where b: "translateText w (description item) tgt ''en'' l1 = (l2, r2)"
    by (cases "translateText w (description item) tgt ''en'' l1")
  from a have l1: "l1 = log @ text_requests (step item) tgt ''en''"
    using fst_translateText[of w "step item" tgt "''en''" log] by simp
  from b have l2: "l2 = l1 @ text_requests (description item) tgt ''en''"
    using fst_translateText[of w "description item" tgt "''en''" l1] by simp
  from a b l1 l2 show ?thesis by (simp add: translate_item_def item_requests_def)
qed

lemma snd_translate_item:
  "snd (translate_item w tgt item log) =
     (case snd (translateText w (step item) tgt ''en'' log) of
        Inl e \<Rightarrow> Inl e
      | Inr s \<Rightarrow>
          (case snd (translateText w (description item) tgt ''en''
                       (log @ text_requests (step item) tgt ''en'')) of
             Inl e \<Rightarrow> Inl e
           | Inr d \<Rightarrow> Inr (item\<lparr>step := s, description := d\<rparr>)))"
proof -
  obtain l1 r1 where a: "translateText w (step item) tgt ''en'' log = (l1, r1)"
    by (cases "translateText w (step item) tgt ''en'' log")
  obtain l2 r2 where b: "translateText w (description item) tgt ''en'' l1 = (l2, r2)"
    by (cases "translateText w (description item) tgt ''en'' l1")
  from a have l1: "l1 = log @ text_requests (step item) tgt ''en''"
    using fst_translateText[of w "step item" tgt "''en''" log] by simp
  from a b l1 show ?thesis
    by (cases r1; cases r2) (simp_all add: translate_item_def)
qed

lemma translate_item_answered:
  "\<not> isl (snd (translate_item w tgt item log)) \<longleftrightarrow> all_answered w log (item_requests tgt item)"
  using translateText_answered[of w "step item" tgt "''en''" log]
    translateText_answered[of w "description item" tgt "''en''" "log @ text_requests (step item) tgt ''en''"]
  by (auto simp: snd_translate_item item_requests_def all_answered_append split: sum.splits)

lemma map_async_translate_item:
  "map_async (translate_item w tgt) plan log =
     (log @ plan_requests tgt plan,
      map (\<lambda>i. snd (translate_item w tgt (plan ! i) (log @ plan_requests tgt (take i plan))))
        [0..<length plan])"
  unfolding plan_requests_def by (rule map_async_issues) (rule fst_translate_item)


lemma snd_translateActionPlan:
  "snd (translateActionPlan w plan tgt log) =
     promise_all (map (\<lambda>i. snd (translate_item w tgt (plan ! i) (log @ plan_requests tgt (take i plan))))
        [0..<length plan])"
  by (simp add: translateActionPlan_def map_async_translate_item)

lemma plan_requests_Cons:
  "plan_requests tgt (item # plan) = item_requests tgt item @ plan_requests tgt plan"
  by (simp add: plan_requests_def)

lemma translateActionPlan_answered:
  "\<not> isl (snd (translateActionPlan w plan tgt log)) \<longleftrightarrow> all_answered w log (plan_requests tgt plan)"
proof (induction plan arbitrary: log)
  case Nil
  then show ?case by (simp add: translateActionPlan_def plan_requests_def)
next
  case (Cons item plan)
  obtain l1 r where t: "translate_item w tgt item log = (l1, r)"
    by (cases "translate_item w tgt item log")
  obtain l2 rs where m: "map_async (translate_item w tgt) plan l1 = (l2, rs)"
    by (cases "map_async (translate_item w tgt) plan l1")
  from t have l1: "l1 = log @ item_requests tgt item"
    using fst_translate_item[of w tgt item log] by simp
  from t have r: "\<not> isl r \<longleftrightarrow> all_answered w log (item_requests tgt item)"
    using translate_item_answered[of w tgt item log] by simp
  from Cons.IH[of l1] m have rs: "\<not> isl (promise_all rs) \<longleftrightarrow> all_answered w l1 (plan_requests tgt plan)"
    by (simp add: translateActionPlan_def)
  have "snd (translateActionPlan w (item # plan) tgt log) = promise_all (r # rs)"
    using t m by (simp add: translateActionPlan_def)
  moreover have "\<not> isl (promise_all (r # rs)) \<longleftrightarrow> \<not> isl r \<and> \<not> isl (promise_all rs)"
    by (simp add: promise_all_isl)
  ultimately show ?case using r rs l1
    by (simp add: plan_requests_Cons all_answered_append)
qed

lemma getLanguageCode_cases:
  "getLanguageCode k =
     (if toLowerCase k = ''spanish'' then Some ''es''
      else if toLowerCase k = ''french'' then Some ''fr''
      else if toLowerCase k = ''mandarin'' then Some ''zh-CN''
      else None)"
  by (simp add: getLanguageCode_def SUPPORTED_LANGUAGES_def)

lemma getLanguageCode_nonempty: "getLanguageCode k = Some c \<Longrightarrow> c \<noteq> []"
  by (auto simp: getLanguageCode_cases split: if_splits)

lemma toLowerCase_examples:
  "toLowerCase ''SPANISH'' = ''spanish''" "toLowerCase ''French'' = ''french''"
  "toLowerCase ''mandarin'' = ''mandarin''" "toLowerCase ''Klingon'' = ''klingon''"
  "toLowerCase ''Spanish'' = ''spanish''" "toLowerCase ''klingon'' = ''klingon''"
  by code_simp+

lemma klingon: "getLanguageCode ''klingon'' = None"
  by (simp add: getLanguageCode_cases toLowerCase_examples)

lemma spanish: "getLanguageCode ''Spanish'' = Some ''es''"
  by (simp add: getLanguageCode_cases toLowerCase_examples)

lemma fst_extractTextFromPDF: "fst (extractTextFromPDF w p log) = log @ [ExtractPdf p]"
  by (simp add: extractTextFromPDF_def)


lemma extract_blank:
  assumes "pdf_text w p = Inr None \<or> (\<exists>t. pdf_text w p = Inr (Some t) \<and> trim t = [])"
  shows "snd (extractTextFromPDF w p log) = Inl (Error no_text_message)"
  using assms by (auto simp: extractTextFromPDF_def no_text_message_def)

lemma process_try_unsupported:
  "getLanguageCode l = None \<Longrightarrow>
   process_try w p l = ([], Inl (Error (''Unsupported language: '' @ l)))"
  by (simp add: process_try_def)

lemma process_try_extract_fails:
  assumes "getLanguageCode l = Some c" and "snd (extractTextFromPDF w p []) = Inl e"
  shows "process_try w p l = ([ExtractPdf p], Inl e)"
proof -
  from assms(2) have "extractTextFromPDF w p [] = ([ExtractPdf p], Inl e)"
    using fst_extractTextFromPDF[of w p "[]"] by (cases "extractTextFromPDF w p []") simp
  with assms(1) getLanguageCode_nonempty[OF assms(1)] show ?thesis
    by (simp add: process_try_def)
qed




lemma snd_processPDFDocument:
  "snd (processPDFDocument w p l) =
     (case snd (process_try w p l) of
        Inr out \<Rightarrow> Resolves out
      | Inl NullValue \<Rightarrow> RejectsTypeError
      | Inl UndefinedValue \<Rightarrow> RejectsTypeError
      | Inl (Thrown (StringMessage m)) \<Rightarrow>
          Resolves (ProcessingError
                      (if m = [] then ''An unexpected error occurred during processing'' else m) (now w))
      | Inl (Thrown (OtherMessage is_truthy written)) \<Rightarrow>
          (if is_truthy then ResolvesUntyped written (now w)
           else Resolves (ProcessingError ''An unexpected error occurred during processing'' (now w))))"
  by (cases "process_try w p l")
    (auto simp: processPDFDocument_def split: sum.splits thrown.splits message.splits)

lemma fst_processPDFDocument: "fst (processPDFDocument w p l) = fst (process_try w p l)"
  by (cases "process_try w p l")
    (auto simp: processPDFDocument_def split: sum.splits thrown.splits message.splits)


section \<open>Properties of the legacy pipeline and of whole runs\<close>







lemma lower_spanish: "toLowerCase ''spanish'' = ''spanish''"
  by code_simp


















lemma processPDFDocument_resolves_iff:
  "(\<exists>out. snd (processPDFDocument w p l) = Resolves out) \<longleftrightarrow>
     (\<forall>e. snd (process_try w p l) = Inl e \<longrightarrow> error_like e)"
proof (cases "snd (process_try w p l)")
  case (Inl e)
  then show ?thesis
    by (cases e rule: error_like.cases) (auto simp: snd_processPDFDocument)
next
  case (Inr out)
  then show ?thesis by (simp add: snd_processPDFDocument)
qed

lemma rejection_run:
  "processPDFDocument (rejection_world e) ''/tmp/a.pdf'' ''spanish''
     = ([ExtractPdf ''/tmp/a.pdf''],
        (case e of
           NullValue \<Rightarrow> RejectsTypeError
         | UndefinedValue \<Rightarrow> RejectsTypeError
         | Thrown (StringMessage m) \<Rightarrow>
             Resolves (ProcessingError
                         (if m = [] then ''An unexpected error occurred during processing'' else m)
                         ''2026-01-01T00:00:00.000Z'')
         | Thrown (OtherMessage is_truthy written) \<Rightarrow>
             (if is_truthy then ResolvesUntyped written ''2026-01-01T00:00:00.000Z''
              else Resolves (ProcessingError ''An unexpected error occurred during processing''
                               ''2026-01-01T00:00:00.000Z''))))"
  by (simp add: processPDFDocument_def process_try_def getLanguageCode_cases lower_spanish
      extractTextFromPDF_def rejection_world_def split: thrown.splits message.splits)

lemma rejection_run_examples:
  "snd (processPDFDocument (rejection_world (Error ''ENOENT: no such file or directory'')) ''/tmp/a.pdf'' ''spanish'')
     = Resolves (ProcessingError ''ENOENT: no such file or directory'' ''2026-01-01T00:00:00.000Z'')"
  "snd (processPDFDocument (rejection_world (Thrown NoMessage)) ''/tmp/a.pdf'' ''spanish'')
     = Resolves (ProcessingError ''An unexpected error occurred during processing'' ''2026-01-01T00:00:00.000Z'')"
  "snd (processPDFDocument (rejection_world (Thrown (OtherMessage True ''42''))) ''/tmp/a.pdf'' ''spanish'')
     = ResolvesUntyped ''42'' ''2026-01-01T00:00:00.000Z''"
  by (simp_all add: rejection_run)



section \<open>Claims about the chunker\<close>

text \<open>
  C1. The claim: for every text and every maximum size of at least 1, every chunk that
  \<open>chunkText\<close> returns is non-empty and no longer than the maximum size.
  The code does not keep the size bound. A text of 50001 characters without a
  terminator is one sentence; with an empty buffer its first 25000 characters are
  pushed, and the 25001 characters that are left become the buffer, which is pushed
  whole at the end. A sentence longer than the maximum size that meets a buffer that is
  not empty is not cut at all: the buffer is pushed, the sentence becomes the buffer and
  is pushed whole. The lemmas \<open>chunkText_chunks_nonempty\<close> and
  \<open>chunkText_bounded_when_sentences_fit\<close> above give what does hold: no chunk is
  empty, and the bound holds when no sentence is longer than the maximum size.
\<close>

theorem chunkText_long_unbroken:
  "chunkText (replicate 50001 CHR ''a'') MAX_TRANSLATE_CHUNK
     = [replicate 25000 CHR ''a'', replicate 25001 CHR ''a''] \<and>
   chunkText ''Hi.abcdefgh.'' 5 = [''Hi.'', ''abcdefgh.'']"
proof -
  have s: "sentences (replicate 50001 CHR ''a'') = [replicate 50001 CHR ''a'']"
    by (rule sentences_no_terminator) (simp add: is_terminator_def)
  have t: "trim (replicate 25001 CHR ''a'') = replicate 25001 CHR ''a''"
    by (rule trim_no_space) (simp add: is_space_def)
  have "chunkText (replicate 50001 CHR ''a'') MAX_TRANSLATE_CHUNK
     = [replicate 25000 CHR ''a'', replicate 25001 CHR ''a'']"
    by (simp add: chunkText_def s MAX_TRANSLATE_CHUNK_def t)
  moreover have "chunkText ''Hi.abcdefgh.'' 5 = [''Hi.'', ''abcdefgh.'']"
    by code_simp
  ultimately show ?thesis by simp
qed

text \<open>
  C2 (amended). For every text and every limit: every non-blank sentence token no
  longer than the limit lies, trimmed, inside one chunk. For every text that its
  sentence tokens cover up to white space at its two ends (the regular expression finds
  no match, or leaves outside its matches only white space at the start or the end): a
  text no longer than the limit gives the one-element list of the trimmed text, or no
  chunk when the text is blank; and the chunks joined with single spaces have the
  content of the text up to white space. A text without a terminator is covered
  (\<open>sentences_no_terminator\<close>), and so is a text that begins with a character
  other than a terminator and ends with a terminator
  (\<open>sentences_cover_terminated\<close>), also when white space follows the last
  terminator.
\<close>

theorem chunkText_preserves_tokenised_content:
  "(trim (concat (sentences T)) = trim T \<longrightarrow>
      (length T \<le> limit \<longrightarrow> chunkText T limit = (if trim T = [] then [] else [trim T])) \<and>
      remove_spaces (join '' '' (chunkText T limit)) = remove_spaces T) \<and>
   (\<forall>s\<in>set (sentences T). length s \<le> limit \<and> trim s \<noteq> [] \<longrightarrow>
      (\<exists>c\<in>set (chunkText T limit). sublist (trim s) c))"
proof (intro conjI impI ballI)
  assume cover: "trim (concat (sentences T)) = trim T" and "length T \<le> limit"
  with length_concat_sentences[of T] have "length (concat (sentences T)) \<le> limit" by simp
  from chunkText_short[OF this] cover
  show "chunkText T limit = (if trim T = [] then [] else [trim T])" by simp
next
  assume cover: "trim (concat (sentences T)) = trim T"
  have "remove_spaces (concat (sentences T)) = remove_spaces (trim (concat (sentences T)))"
    by (simp add: remove_spaces_trim)
  also have "\<dots> = remove_spaces T" by (simp add: cover remove_spaces_trim)
  finally show "remove_spaces (join '' '' (chunkText T limit)) = remove_spaces T"
    by (simp add: chunkText_content)
next
  fix s
  assume "s \<in> set (sentences T)" and "length s \<le> limit \<and> trim s \<noteq> []"
  then show "\<exists>c\<in>set (chunkText T limit). sublist (trim s) c"
    by (intro chunkText_whole_sentence) simp_all
qed

theorem chunkText_preserves_tokenised_content_witness:
  "trim (concat (sentences ''Hello world. How are you?! Fine.'')) = trim ''Hello world. How are you?! Fine.'' \<and>
   chunkText ''Hello world. How are you?! Fine.'' 14 = [''Hello world.'', ''How are you?!'', ''Fine.''] \<and>
   remove_spaces (join '' '' (chunkText ''Hello world. How are you?! Fine.'' 14)) = ''Helloworld.Howareyou?!Fine.'' \<and>
   (\<exists>c\<in>set (chunkText ''Hello world. How are you?! Fine.'' 14). sublist ''How are you?!'' c) \<and>
   trim (concat (sentences ''  Hi there. Bye.'')) = trim ''  Hi there. Bye.'' \<and>
   length ''  Hi there. Bye.'' \<le> MAX_TRANSLATE_CHUNK \<and>
   chunkText ''  Hi there. Bye.'' MAX_TRANSLATE_CHUNK = [''Hi there. Bye.''] \<and>
   concat (sentences ''Hi. '') \<noteq> ''Hi. '' \<and>
   trim (concat (sentences ''Hi. '')) = trim ''Hi. '' \<and>
   length ''Hi. '' \<le> (10::nat) \<and>
   chunkText ''Hi. '' 10 = [''Hi.''] \<and>
   remove_spaces (join '' '' (chunkText ''Hi. '' 10)) = ''Hi.''"
proof -
  let ?T = "''Hello world. How are you?! Fine.''"
  let ?U = "''  Hi there. Bye.''"
  let ?V = "''Hi. ''"
  have sT: "sentences ?T = [''Hello world.'', '' How are you?!'', '' Fine.'']"
    by code_simp
  have sU: "sentences ?U = [''  Hi there.'', '' Bye.'']"
    by code_simp
  have sV: "sentences ?V = [''Hi.'']"
    by code_simp
  have tr: "trim '' How are you?!'' = ''How are you?!''" "trim ?U = ''Hi there. Bye.''"
    "trim ?T = ?T" "trim ?V = ''Hi.''" "trim ''Hi.'' = ''Hi.''"
    by code_simp+
  have cT: "trim (concat (sentences ?T)) = trim ?T" by (simp add: sT)
  have cU: "trim (concat (sentences ?U)) = trim ?U" by (simp add: sU)
  have cV: "trim (concat (sentences ?V)) = trim ?V" by (simp add: sV tr)
  have nV: "concat (sentences ?V) \<noteq> ?V" by (simp add: sV)
  have rs: "remove_spaces ?T = ''Helloworld.Howareyou?!Fine.''" "remove_spaces ?V = ''Hi.''"
    by code_simp+
  have ch: "chunkText ?T 14 = [''Hello world.'', ''How are you?!'', ''Fine.'']"
    by code_simp
  note T = chunkText_preserves_tokenised_content[of ?T 14]
  note U = chunkText_preserves_tokenised_content[of ?U MAX_TRANSLATE_CHUNK]
  note V = chunkText_preserves_tokenised_content[of ?V 10]
  from T have "\<exists>c\<in>set (chunkText ?T 14). sublist (trim '' How are you?!'') c"
    by (simp add: sT tr)
  then have t1: "\<exists>c\<in>set (chunkText ?T 14). sublist ''How are you?!'' c"
    by (simp only: tr)
  from T cT have "remove_spaces (join '' '' (chunkText ?T 14)) = remove_spaces ?T"
    by blast
  then have t2: "remove_spaces (join '' '' (chunkText ?T 14)) = ''Helloworld.Howareyou?!Fine.''"
    by (simp only: rs)
  from U cU have u: "chunkText ?U MAX_TRANSLATE_CHUNK = [''Hi there. Bye.'']"
    by (simp add: MAX_TRANSLATE_CHUNK_def tr)
  from V cV have v1: "chunkText ?V 10 = [''Hi.'']"
    by (simp add: tr)
  from V cV have "remove_spaces (join '' '' (chunkText ?V 10)) = remove_spaces ?V"
    by blast
  then have v2: "remove_spaces (join '' '' (chunkText ?V 10)) = ''Hi.''"
    by (simp only: rs)
  have len: "length ?U \<le> MAX_TRANSLATE_CHUNK" "length ?V \<le> (10::nat)"
    by (simp_all add: MAX_TRANSLATE_CHUNK_def)
  from cT ch t2 t1 cU len(1) u nV cV len(2) v1 v2 show ?thesis by blast
qed

text \<open>
  The claim as first stated fails for a blank text, which gives no chunk at all and not
  the one-element list of the empty text. It also fails for a text whose last sentence
  has no terminator: the regular expression leaves that sentence outside every match,
  and the chunks lose it.
\<close>

theorem chunkText_short_text_counterexample:
  "length ''   '' \<le> (10::nat) \<and> chunkText ''   '' 10 = [] \<and> chunkText ''   '' 10 \<noteq> [trim ''   ''] \<and>
   length ''Hi. yo'' \<le> (10::nat) \<and> chunkText ''Hi. yo'' 10 = [''Hi.''] \<and>
   chunkText ''Hi. yo'' 10 \<noteq> [trim ''Hi. yo'']"
proof -
  have a: "chunkText ''   '' 10 = []" by code_simp
  have b: "chunkText ''Hi. yo'' 10 = [''Hi.'']" by code_simp
  have c: "trim ''   '' = []" "trim ''Hi. yo'' = ''Hi. yo''" by code_simp+
  show ?thesis unfolding a b c by simp
qed

section \<open>Claims about the translation adapter\<close>

text \<open>
  C3. For every input, \<open>translateText\<close> issues exactly one request when the text
  has at most 25000 characters. For a longer text it issues exactly one request for
  each chunk of \<open>chunkText\<close> at that limit, in the order of the chunks, and it
  returns a text exactly when every chunk gets a non-empty answer: the answers joined
  with single spaces, in the order of the chunks.
\<close>

theorem translateText_one_call_per_chunk:
  "(length text \<le> MAX_TRANSLATE_CHUNK \<longrightarrow>
      fst (translateText w text tgt src log) = log @ [translate_request src tgt text]) \<and>
   (MAX_TRANSLATE_CHUNK < length text \<longrightarrow>
      fst (translateText w text tgt src log)
        = log @ map (translate_request src tgt) (chunkText text MAX_TRANSLATE_CHUNK) \<and>
      (\<forall>out. snd (translateText w text tgt src log) = Inr out \<longleftrightarrow>
         (\<exists>ts. length ts = length (chunkText text MAX_TRANSLATE_CHUNK) \<and> out = join '' '' ts \<and>
            (\<forall>i<length ts. ts ! i \<noteq> [] \<and>
               chunk_reply w src tgt log (chunkText text MAX_TRANSLATE_CHUNK) i
                 = Responds (Some (ts ! i))))))"
proof (intro conjI impI allI)
  assume "length text \<le> MAX_TRANSLATE_CHUNK"
  then show "fst (translateText w text tgt src log) = log @ [translate_request src tgt text]"
    by (simp add: fst_translateText text_requests_def)
next
  assume "MAX_TRANSLATE_CHUNK < length text"
  then show "fst (translateText w text tgt src log)
      = log @ map (translate_request src tgt) (chunkText text MAX_TRANSLATE_CHUNK)"
    by (simp add: fst_translateText text_requests_def)
next
  fix out
  assume "MAX_TRANSLATE_CHUNK < length text"
  then show "snd (translateText w text tgt src log) = Inr out \<longleftrightarrow>
         (\<exists>ts. length ts = length (chunkText text MAX_TRANSLATE_CHUNK) \<and> out = join '' '' ts \<and>
            (\<forall>i<length ts. ts ! i \<noteq> [] \<and>
               chunk_reply w src tgt log (chunkText text MAX_TRANSLATE_CHUNK) i
                 = Responds (Some (ts ! i))))"
    by (rule snd_translateText_long)
qed

theorem translateText_one_call_per_chunk_witness:
  "length ''Bring ID.'' \<le> MAX_TRANSLATE_CHUNK \<and>
   fst (translateText (example_world None numbering_service) ''Bring ID.'' ''es'' ''en'' [])
     = [translate_request ''en'' ''es'' ''Bring ID.''] \<and>
   MAX_TRANSLATE_CHUNK < length (replicate 25001 CHR ''a'') \<and>
   chunkText (replicate 25001 CHR ''a'') MAX_TRANSLATE_CHUNK = [replicate 25000 CHR ''a'', ''a''] \<and>
   fst (translateText (example_world None numbering_service) (replicate 25001 CHR ''a'') ''es'' ''en'' [])
     = [translate_request ''en'' ''es'' (replicate 25000 CHR ''a''), translate_request ''en'' ''es'' ''a''] \<and>
   snd (translateText (example_world None numbering_service) (replicate 25001 CHR ''a'') ''es'' ''en'' [])
     = Inr ''uno dos''"
proof -
  let ?w = "example_world None numbering_service"
  let ?t = "replicate 25001 CHR ''a''"
  have ch: "chunkText ?t MAX_TRANSLATE_CHUNK = [replicate 25000 CHR ''a'', ''a'']"
    by (simp add: chunkText_unbroken MAX_TRANSLATE_CHUNK_def is_terminator_def is_space_def)
  have short: "length ''Bring ID.'' \<le> MAX_TRANSLATE_CHUNK" by (simp add: MAX_TRANSLATE_CHUNK_def)
  have long: "MAX_TRANSLATE_CHUNK < length ?t" by (simp add: MAX_TRANSLATE_CHUNK_def)
  note a = translateText_one_call_per_chunk[of "''Bring ID.''" ?w "''es''" "''en''" "[]"]
  note b = translateText_one_call_per_chunk[of ?t ?w "''es''" "''en''" "[]"]
  from a short have 1: "fst (translateText ?w ''Bring ID.'' ''es'' ''en'' [])
      = [translate_request ''en'' ''es'' ''Bring ID.'']" by simp
  from b long have 2: "fst (translateText ?w ?t ''es'' ''en'' [])
      = [] @ map (translate_request ''en'' ''es'') (chunkText ?t MAX_TRANSLATE_CHUNK)" by blast
  have r: "\<forall>i<length [''uno'', ''dos'']. [''uno'', ''dos''] ! i \<noteq> [] \<and>
      chunk_reply ?w ''en'' ''es'' [] (chunkText ?t MAX_TRANSLATE_CHUNK) i = Responds (Some ([''uno'', ''dos''] ! i))"
    by (simp add: ch chunk_reply_def example_world_def numbering_service_def less_Suc_eq)
  from b long have "snd (translateText ?w ?t ''es'' ''en'' []) = Inr (join '' '' [''uno'', ''dos'']) \<longleftrightarrow>
      (\<exists>ts. length ts = length (chunkText ?t MAX_TRANSLATE_CHUNK) \<and> join '' '' [''uno'', ''dos''] = join '' '' ts \<and>
        (\<forall>i<length ts. ts ! i \<noteq> [] \<and>
           chunk_reply ?w ''en'' ''es'' [] (chunkText ?t MAX_TRANSLATE_CHUNK) i = Responds (Some (ts ! i))))"
    by blast
  moreover have "\<exists>ts. length ts = length (chunkText ?t MAX_TRANSLATE_CHUNK) \<and> join '' '' [''uno'', ''dos''] = join '' '' ts \<and>
        (\<forall>i<length ts. ts ! i \<noteq> [] \<and>
           chunk_reply ?w ''en'' ''es'' [] (chunkText ?t MAX_TRANSLATE_CHUNK) i = Responds (Some (ts ! i)))"
    using r by (intro exI[of _ "[''uno'', ''dos'']"]) (simp add: ch)
  ultimately have 3: "snd (translateText ?w ?t ''es'' ''en'' []) = Inr ''uno dos''" by simp
  from 1 2 3 short long show ?thesis by (simp add: ch)
qed

text \<open>
  C4. \<open>translateText\<close> is all-or-nothing: for a text of more than 25000
  characters, when the request for one of its chunks fails (the call rejects, or the
  payload is missing or empty), the whole operation fails with an error and returns no
  text.
\<close>

theorem translateText_all_or_nothing:
  assumes "MAX_TRANSLATE_CHUNK < length text"
    and "i < length (chunkText text MAX_TRANSLATE_CHUNK)"
    and "failed (chunk_reply w src tgt log (chunkText text MAX_TRANSLATE_CHUNK) i)"
  shows "\<exists>e. snd (translateText w text tgt src log) = Inl e"
proof -
  let ?cs = "chunkText text MAX_TRANSLATE_CHUNK"
  let ?rs = "map (\<lambda>i. check_reply (chunk_reply w src tgt log ?cs i)) [0..<length ?cs]"
  from assms(1) have s: "snd (translateText w text tgt src log)
      = (case promise_all ?rs of Inl e \<Rightarrow> Inl e | Inr ts \<Rightarrow> Inr (join '' '' ts))"
    by (simp add: translateText_def map_async_translate)
  from assms(2,3) have "isl (?rs ! i)" by (simp add: isl_check_reply)
  moreover from assms(2) have "?rs ! i \<in> set ?rs" by (intro nth_mem) simp
  ultimately have "isl (promise_all ?rs)" unfolding promise_all_isl by blast
  then obtain e where "promise_all ?rs = Inl e" by (cases "promise_all ?rs") simp_all
  with s show ?thesis by simp
qed

theorem translateText_all_or_nothing_witness:
  "MAX_TRANSLATE_CHUNK < length (replicate 25001 CHR ''a'') \<and>
   chunkText (replicate 25001 CHR ''a'') MAX_TRANSLATE_CHUNK = [replicate 25000 CHR ''a'', ''a''] \<and>
   chunk_reply (example_world None failing_second) ''en'' ''es'' [] (chunkText (replicate 25001 CHR ''a'') MAX_TRANSLATE_CHUNK) 0
     = Responds (Some ''uno'') \<and>
   failed (chunk_reply (example_world None failing_second) ''en'' ''es'' [] (chunkText (replicate 25001 CHR ''a'') MAX_TRANSLATE_CHUNK) 1) \<and>
   (\<exists>e. snd (translateText (example_world None failing_second) (replicate 25001 CHR ''a'') ''es'' ''en'' []) = Inl e)"
proof -
  let ?w = "example_world None failing_second"
  let ?t = "replicate 25001 CHR ''a''"
  have ch: "chunkText ?t MAX_TRANSLATE_CHUNK = [replicate 25000 CHR ''a'', ''a'']"
    by (simp add: chunkText_unbroken MAX_TRANSLATE_CHUNK_def is_terminator_def is_space_def)
  have long: "MAX_TRANSLATE_CHUNK < length ?t" by (simp add: MAX_TRANSLATE_CHUNK_def)
  have i: "1 < length (chunkText ?t MAX_TRANSLATE_CHUNK)" by (simp add: ch)
  have f: "failed (chunk_reply ?w ''en'' ''es'' [] (chunkText ?t MAX_TRANSLATE_CHUNK) 1)"
    by (simp add: ch chunk_reply_def example_world_def failing_second_def failed_def)
  have g: "chunk_reply ?w ''en'' ''es'' [] (chunkText ?t MAX_TRANSLATE_CHUNK) 0 = Responds (Some ''uno'')"
    by (simp add: ch chunk_reply_def example_world_def failing_second_def)
  from translateText_all_or_nothing[OF long i f] long ch f g show ?thesis by simp
qed

section \<open>Claims about the pipeline\<close>




text \<open>
  C6. The claim: for every PDF path and every language argument,
  \<open>processPDFDocument\<close> returns one of the two variants and never throws past its
  boundary. The code does not keep this when a collaborator rejects with \<open>null\<close>
  or \<open>undefined\<close>: here reading the PDF rejects with \<open>undefined\<close>, or
  with \<open>null\<close>, the \<open>catch\<close> block reads \<open>error.message\<close> of it,
  which throws a
  \<open>TypeError\<close>, and the promise of \<open>processPDFDocument\<close> rejects without a
  variant. The lemmas \<open>processPDFDocument_resolves_iff\<close> and
  \<open>processPDFDocument_returns_variant\<close> above give what does hold: a variant is
  returned exactly when the \<open>try\<close> block succeeds or throws a value that is neither
  \<open>null\<close> nor \<open>undefined\<close> and whose message is a string or falsy; when the
  collaborators reject with such values only, the success variant is returned exactly
  when every stage succeeds, and otherwise the error variant with a non-empty message
  and the time stamp.
\<close>

theorem processPDFDocument_rejects_on_undefined:
  "processPDFDocument (rejection_world UndefinedValue) ''/tmp/a.pdf'' ''spanish''
     = ([ExtractPdf ''/tmp/a.pdf''], RejectsTypeError) \<and>
   processPDFDocument (rejection_world NullValue) ''/tmp/a.pdf'' ''spanish''
     = ([ExtractPdf ''/tmp/a.pdf''], RejectsTypeError)"
  by (simp add: processPDFDocument_def process_try_def getLanguageCode_cases lower_spanish
      extractTextFromPDF_def rejection_world_def)

text \<open>
  C7. For every language key that is not in the registry, \<open>processPDFDocument\<close>
  returns the error variant with the message \<open>Unsupported language:\<close> followed by
  the key, and issues no call: no extraction, no generation, no translation.
\<close>

theorem unsupported_language_makes_no_call:
  assumes "getLanguageCode l = None"
  shows "processPDFDocument w p l
     = ([], Resolves (ProcessingError (''Unsupported language: '' @ l) (now w)))"
  using assms by (simp add: processPDFDocument_def process_try_unsupported)

theorem unsupported_language_makes_no_call_witness:
  "getLanguageCode ''klingon'' = None \<and>
   processPDFDocument (example_world (Some example_text) prefixing_service) ''/tmp/a.pdf'' ''klingon''
     = ([], Resolves (ProcessingError ''Unsupported language: klingon'' ''2026-01-01T00:00:00.000Z''))"
  using unsupported_language_makes_no_call[OF klingon, of "example_world (Some example_text) prefixing_service" "''/tmp/a.pdf''"]
    klingon
  by (simp add: example_world_def)

text \<open>
  C8. For every PDF whose extracted text is missing, empty or white space only, and for
  every language argument, the run returns the error variant and issues no call of the
  generator and no call of the translation service. The extraction takes place when the
  language key is in the registry; the only call is then the extraction, and the error
  variant carries the message of \<open>extractTextFromPDF\<close>.
\<close>

theorem blank_extraction_stops_pipeline:
  assumes "pdf_text w p = Inr None \<or> (\<exists>t. pdf_text w p = Inr (Some t) \<and> trim t = [])"
  shows "(\<exists>e. snd (processPDFDocument w p l) = Resolves (ProcessingError e (now w))) \<and>
         (\<forall>c\<in>set (fst (processPDFDocument w p l)).
            (\<forall>t. c \<noteq> GenerateContent t) \<and> (\<forall>r. c \<noteq> TranslateRequest r)) \<and>
         (getLanguageCode l \<noteq> None \<longrightarrow>
            processPDFDocument w p l
              = ([ExtractPdf p], Resolves (ProcessingError no_text_message (now w))))"
proof (cases "getLanguageCode l")
  case None
  then show ?thesis by (simp add: processPDFDocument_def process_try_unsupported)
next
  case (Some c)
  from process_try_extract_fails[OF Some extract_blank[OF assms]]
  have "processPDFDocument w p l = ([ExtractPdf p], Resolves (ProcessingError no_text_message (now w)))"
    by (simp add: processPDFDocument_def no_text_message_def)
  with Some show ?thesis by simp
qed

theorem blank_extraction_stops_pipeline_witness:
  "getLanguageCode ''Spanish'' = Some ''es'' \<and>
   trim [CHR '' '', CHR 0x0A, CHR 0x09] = [] \<and>
   processPDFDocument (example_world (Some [CHR '' '', CHR 0x0A, CHR 0x09]) prefixing_service) ''/tmp/scan.pdf'' ''Spanish''
     = ([ExtractPdf ''/tmp/scan.pdf''],
        Resolves (ProcessingError ''No text could be extracted from this PDF. It may be scanned image-only.''
          ''2026-01-01T00:00:00.000Z'')) \<and>
   processPDFDocument (example_world None prefixing_service) ''/tmp/scan.pdf'' ''Spanish''
     = ([ExtractPdf ''/tmp/scan.pdf''],
        Resolves (ProcessingError ''No text could be extracted from this PDF. It may be scanned image-only.''
          ''2026-01-01T00:00:00.000Z''))"
proof -
  let ?blank = "[CHR '' '', CHR 0x0A, CHR 0x09]"
  have t: "trim ?blank = []" by (simp add: trim_def is_space_def)
  have a: "pdf_text (example_world (Some ?blank) prefixing_service) ''/tmp/scan.pdf'' = Inr None \<or>
      (\<exists>t. pdf_text (example_world (Some ?blank) prefixing_service) ''/tmp/scan.pdf'' = Inr (Some t) \<and> trim t = [])"
    using t by (simp add: example_world_def)
  have b: "pdf_text (example_world None prefixing_service) ''/tmp/scan.pdf'' = Inr None \<or>
      (\<exists>t. pdf_text (example_world None prefixing_service) ''/tmp/scan.pdf'' = Inr (Some t) \<and> trim t = [])"
    by (simp add: example_world_def)
  from blank_extraction_stops_pipeline[OF a, of "''Spanish''"]
    blank_extraction_stops_pipeline[OF b, of "''Spanish''"] spanish t
  show ?thesis by (simp add: no_text_message_def example_world_def)
qed

text \<open>
  C9. For every action plan, \<open>translateActionPlan\<close> returns a list exactly when
  every request it issues is answered, and the list then has the length and the order
  of the input: the item at each position keeps its priority, its professional type
  and every field but \<open>step\<close> and \<open>description\<close>, which are the translations
  of the step and the description of the input item at that position.
\<close>

theorem translateActionPlan_keeps_items:
  "((\<exists>plan'. snd (translateActionPlan w plan tgt log) = Inr plan')
      \<longleftrightarrow> all_answered w log (plan_requests tgt plan)) \<and>
   (\<forall>plan'. snd (translateActionPlan w plan tgt log) = Inr plan' \<longrightarrow>
      length plan' = length plan \<and>
      (\<forall>i<length plan.
         priority (plan' ! i) = priority (plan ! i) \<and>
         professionalType (plan' ! i) = professionalType (plan ! i) \<and>
         plan' ! i = (plan ! i)\<lparr>step := step (plan' ! i), description := description (plan' ! i)\<rparr> \<and>
         snd (translateText w (step (plan ! i)) tgt ''en'' (log @ plan_requests tgt (take i plan)))
           = Inr (step (plan' ! i)) \<and>
         snd (translateText w (description (plan ! i)) tgt ''en''
                (log @ plan_requests tgt (take i plan) @ text_requests (step (plan ! i)) tgt ''en''))
           = Inr (description (plan' ! i))))"
proof (intro conjI allI impI)
  show "(\<exists>plan'. snd (translateActionPlan w plan tgt log) = Inr plan')
      \<longleftrightarrow> all_answered w log (plan_requests tgt plan)"
    using translateActionPlan_answered[of w plan tgt log]
    by (cases "snd (translateActionPlan w plan tgt log)") simp_all
next
  fix plan'
  assume ok: "snd (translateActionPlan w plan tgt log) = Inr plan'"
  let ?rs = "map (\<lambda>i. snd (translate_item w tgt (plan ! i) (log @ plan_requests tgt (take i plan))))
        [0..<length plan]"
  from ok have eq: "?rs = map Inr plan'"
    by (simp add: snd_translateActionPlan promise_all_Inr_iff)
  then have "length ?rs = length (map Inr plan' :: (thrown + ActionItem) list)" by simp
  then show len: "length plan' = length plan" by simp
  fix i
  assume i: "i < length plan"
  from eq have "?rs ! i = map Inr plan' ! i" by simp
  with i len have item: "snd (translate_item w tgt (plan ! i) (log @ plan_requests tgt (take i plan)))
      = Inr (plan' ! i)" by simp
  let ?l = "log @ plan_requests tgt (take i plan)"
  from item obtain s d where
    s: "snd (translateText w (step (plan ! i)) tgt ''en'' ?l) = Inr s" and
    d: "snd (translateText w (description (plan ! i)) tgt ''en'' (?l @ text_requests (step (plan ! i)) tgt ''en'')) = Inr d" and
    p: "plan' ! i = (plan ! i)\<lparr>step := s, description := d\<rparr>"
    by (auto simp: snd_translate_item split: sum.splits)
  from p show "priority (plan' ! i) = priority (plan ! i)" by simp
  from p show "professionalType (plan' ! i) = professionalType (plan ! i)" by simp
  from p show "plan' ! i = (plan ! i)\<lparr>step := step (plan' ! i), description := description (plan' ! i)\<rparr>"
    by simp
  from s p show "snd (translateText w (step (plan ! i)) tgt ''en'' (log @ plan_requests tgt (take i plan)))
           = Inr (step (plan' ! i))" by simp
  from d p show "snd (translateText w (description (plan ! i)) tgt ''en''
                (log @ plan_requests tgt (take i plan) @ text_requests (step (plan ! i)) tgt ''en''))
           = Inr (description (plan' ! i))" by simp
qed

theorem translateActionPlan_keeps_items_witness:
  "snd (translateActionPlan (example_world None prefixing_service) example_plan ''es'' [])
     = Inr [\<lparr>step = ''es:Go to the appointment'', description = ''es:The appointment is on March 5th.'',
              priority = high, professionalType = Some ''medical_interpreter''\<rparr>,
            \<lparr>step = ''es:Bring ID'', description = ''es:Take your ID with you.'',
              priority = low, professionalType = None\<rparr>] \<and>
   all_answered (example_world None prefixing_service) [] (plan_requests ''es'' example_plan)"
proof -
  let ?w = "example_world None prefixing_service"
  have r: "snd (translateActionPlan ?w example_plan ''es'' [])
     = Inr [\<lparr>step = ''es:Go to the appointment'', description = ''es:The appointment is on March 5th.'',
              priority = high, professionalType = Some ''medical_interpreter''\<rparr>,
            \<lparr>step = ''es:Bring ID'', description = ''es:Take your ID with you.'',
              priority = low, professionalType = None\<rparr>]"
    by (simp add: example_world_def example_plan_def
      translateText_def translateActionPlan_def translate_item_def translate_def check_reply_def
      prefixing_service_def MAX_TRANSLATE_CHUNK_def Let_def)
  with translateActionPlan_keeps_items[of ?w example_plan "''es''" "[]"]
  have "all_answered ?w [] (plan_requests ''es'' example_plan)" by blast
  with r show ?thesis by simp
qed

section \<open>Claims about the language registry\<close>

text \<open>
  C10. \<open>getLanguageCode\<close> returns a code exactly when the lower-case form of the
  key is \<open>spanish\<close>, \<open>french\<close> or \<open>mandarin\<close>, and the code is then
  \<open>es\<close>, \<open>fr\<close> or \<open>zh-CN\<close>; for every other key it returns no code.
\<close>

theorem getLanguageCode_three_keys:
  "(getLanguageCode k \<noteq> None \<longleftrightarrow> toLowerCase k \<in> {''spanish'', ''french'', ''mandarin''}) \<and>
   (toLowerCase k = ''spanish'' \<longrightarrow> getLanguageCode k = Some ''es'') \<and>
   (toLowerCase k = ''french'' \<longrightarrow> getLanguageCode k = Some ''fr'') \<and>
   (toLowerCase k = ''mandarin'' \<longrightarrow> getLanguageCode k = Some ''zh-CN'') \<and>
   (toLowerCase k \<notin> {''spanish'', ''french'', ''mandarin''} \<longrightarrow> getLanguageCode k = None)"
  by (simp add: getLanguageCode_cases)

theorem getLanguageCode_three_keys_witness:
  "toLowerCase ''SPANISH'' = ''spanish'' \<and> getLanguageCode ''SPANISH'' = Some ''es'' \<and>
   toLowerCase ''French'' = ''french'' \<and> getLanguageCode ''French'' = Some ''fr'' \<and>
   toLowerCase ''mandarin'' = ''mandarin'' \<and> getLanguageCode ''mandarin'' = Some ''zh-CN'' \<and>
   toLowerCase ''Klingon'' = ''klingon'' \<and> getLanguageCode ''Klingon'' = None"
  using getLanguageCode_three_keys[of "''SPANISH''"] getLanguageCode_three_keys[of "''French''"]
    getLanguageCode_three_keys[of "''mandarin''"] getLanguageCode_three_keys[of "''Klingon''"]
  by (simp add: toLowerCase_examples)

end
